theory Spec2Isabelle
  imports Complex_Main "HOL-Library.Multiset"
begin

section \<open>Values of the Python program\<close>

text \<open>
  The module \<^verbatim>\<open>stock_pattern_analyzer/search_index.py\<close> wraps three library indexes
  (\<^verbatim>\<open>faiss.IndexFlatL2\<close>, \<^verbatim>\<open>faiss.IndexIVFPQ\<close>, \<^verbatim>\<open>scipy.spatial.cKDTree\<close>) behind
  one class interface: \<^verbatim>\<open>create\<close>, \<^verbatim>\<open>query\<close>, \<^verbatim>\<open>load\<close>, \<^verbatim>\<open>serialize\<close>.

  A numpy array of dimension 0, 1 or 2. A two-dimensional array carries its number of
  columns, so that an array of shape \<open>(0, D)\<close> still knows \<open>D\<close>.
\<close>

datatype 'a ndarray =
    Arr0 'a
  | Arr1 "'a list"
  | Arr2 nat "'a list list"

text \<open>Array elements the libraries return as distances: a number, or \<open>+inf\<close>.\<close>

datatype npfloat = Fin real | PosInf

text \<open>
  The exceptions the module can end with. \<open>ValueError\<close> carries its message, so that the one
  the module raises itself (line 86) is told apart from those of the libraries.
  \<open>LibraryError\<close> stands for an exception of a library call whose class is not modelled.
\<close>

datatype error =
    ValueError string
  | AttributeError
  | IndexError
  | AssertionError
  | RuntimeError
  | LibraryError

text \<open>\<^verbatim>\<open>X.shape[-1]\<close>: the last entry of the shape tuple; the shape of a 0-d array is \<open>()\<close>.\<close>

fun shape :: "'a ndarray \<Rightarrow> nat list" where
  "shape (Arr0 x) = []"
| "shape (Arr1 xs) = [length xs]"
| "shape (Arr2 c rs) = [length rs, c]"

fun shape_last :: "'a ndarray \<Rightarrow> error + nat" where
  "shape_last (Arr0 x) = Inl IndexError"
| "shape_last (Arr1 xs) = Inr (length xs)"
| "shape_last (Arr2 c rs) = Inr c"

text \<open>\<^verbatim>\<open>a[0]\<close>: the first entry along the first axis.\<close>

fun getitem0 :: "'a ndarray \<Rightarrow> error + 'a ndarray" where
  "getitem0 (Arr0 x) = Inl IndexError"
| "getitem0 (Arr1 []) = Inl IndexError"
| "getitem0 (Arr1 (x # xs)) = Inr (Arr0 x)"
| "getitem0 (Arr2 c []) = Inl IndexError"
| "getitem0 (Arr2 c (r # rs)) = Inr (Arr1 r)"

text \<open>\<^verbatim>\<open>n, d = x.shape\<close> of the faiss Python wrappers: only a 2-d array unpacks.\<close>

definition unpack_msg :: string where
  "unpack_msg = ''not enough values to unpack (expected 2, got 1)''"

fun unpack_shape :: "'a ndarray \<Rightarrow> error + (nat \<times> 'a list list)" where
  "unpack_shape (Arr0 x) = Inl (ValueError ''not enough values to unpack (expected 2, got 0)'')"
| "unpack_shape (Arr1 xs) = Inl (ValueError unpack_msg)"
| "unpack_shape (Arr2 c rs) = Inr (c, rs)"

section \<open>The library objects\<close>

subsection \<open>faiss.IndexFlatL2\<close>

text \<open>
  Behaviour of the library as it documents it, over exact reals: \<^verbatim>\<open>IndexFlatL2(d)\<close> is an
  empty index of dimension \<open>d\<close>; \<^verbatim>\<open>add\<close> appends the rows; \<^verbatim>\<open>search(x, k)\<close> returns, for
  each row of \<open>x\<close>, the \<open>k\<close> stored vectors of smallest \<^emph>\<open>squared\<close> Euclidean distance, by
  ascending distance and, at equal distance, by ascending row number, as a \<open>(n, k)\<close> array
  of distances and a \<open>(n, k)\<close> array of row numbers; where fewer than \<open>k\<close> vectors are
  stored the row number is \<open>-1\<close> and the distance the largest float.

  The library computes in 32-bit floating point. The model is the library on inputs that
  float32 computes exactly (see \<open>float_exact\<close> below); the rounding and the overflow of
  float32 on other inputs are not modelled.
\<close>

record IndexFlatL2 =
  flat_d :: nat
  xb :: "real list list"

definition L2sqr :: "real list \<Rightarrow> real list \<Rightarrow> real" where
  "L2sqr x y = sum_list (map (\<lambda>(a, b). (a - b)\<^sup>2) (zip x y))"

definition ranked :: "(real list \<Rightarrow> real) \<Rightarrow> real list list \<Rightarrow> (nat \<times> real list) list" where
  "ranked f rows = sort_key (\<lambda>(i, y). f y) (enumerate 0 rows)"

definition FLT_MAX :: real where
  "FLT_MAX = 340282346638528859811704183484516925440"

definition flat_row :: "real list list \<Rightarrow> nat \<Rightarrow> real list \<Rightarrow> (npfloat \<times> int) list" where
  "flat_row rows k q =
     map (\<lambda>(i, y). (Fin (L2sqr q y), int i)) (take k (ranked (L2sqr q) rows))
     @ replicate (k - length rows) (Fin FLT_MAX, - 1)"

definition IndexFlatL2_new :: "nat \<Rightarrow> IndexFlatL2" where
  "IndexFlatL2_new d = \<lparr>flat_d = d, xb = []\<rparr>"

definition IndexFlatL2_add :: "IndexFlatL2 \<Rightarrow> real ndarray \<Rightarrow> error + IndexFlatL2" where
  "IndexFlatL2_add ix x =
     (case unpack_shape x of
        Inl e \<Rightarrow> Inl e
      | Inr (d, rows) \<Rightarrow>
          if d = flat_d ix then Inr (ix\<lparr>xb := xb ix @ rows\<rparr>) else Inl AssertionError)"

definition IndexFlatL2_search ::
  "IndexFlatL2 \<Rightarrow> real ndarray \<Rightarrow> nat \<Rightarrow> error + (npfloat ndarray \<times> int ndarray)" where
  "IndexFlatL2_search ix x k =
     (case unpack_shape x of
        Inl e \<Rightarrow> Inl e
      | Inr (d, qs) \<Rightarrow>
          if d \<noteq> flat_d ix then Inl AssertionError
          else if k = 0 then Inl AssertionError
          else Inr (Arr2 k (map (\<lambda>q. map fst (flat_row (xb ix) k q)) qs),
                    Arr2 k (map (\<lambda>q. map snd (flat_row (xb ix) k q)) qs)))"

subsection \<open>faiss.IndexIVFPQ\<close>

text \<open>
  The quantized index is approximate and its training is not modelled: what the native
  code computes is a parameter (\<open>train_c\<close>, \<open>add_c\<close>, \<open>search_c\<close> below, \<open>None\<close> where it
  throws, which Python sees as a \<open>RuntimeError\<close>). The object keeps the arguments of its
  constructor, \<^verbatim>\<open>IndexIVFPQ(quantizer, d, nlist, M, nbits)\<close>, and the trained state.
\<close>

record 'p IndexIVFPQ =
  quantizer :: IndexFlatL2
  pq_d :: nat
  nlist :: nat
  pq_M :: nat
  nbits :: nat
  payload :: "'p option"

definition IndexIVFPQ_new :: "IndexFlatL2 \<Rightarrow> nat \<Rightarrow> nat \<Rightarrow> nat \<Rightarrow> nat \<Rightarrow> 'p IndexIVFPQ" where
  "IndexIVFPQ_new qz d nl m nb =
     \<lparr>quantizer = qz, pq_d = d, nlist = nl, pq_M = m, nbits = nb, payload = None\<rparr>"

subsection \<open>scipy.spatial.cKDTree\<close>

text \<open>
  Behaviour of the library over exact reals: \<^verbatim>\<open>cKDTree(data)\<close> takes a 2-d array;
  \<^verbatim>\<open>query(x, k)\<close> takes an array whose last axis has the tree's dimension and returns the
  \<open>k\<close> nearest rows of each point by ascending \<^emph>\<open>Euclidean\<close> distance (the Minkowski
  2-norm, not squared); the result has the shape of \<open>x\<close> with the last axis replaced by
  \<open>k\<close>, and that axis is squeezed when \<open>k = 1\<close>; missing neighbours have an infinite
  distance and the row number \<open>n\<close>.

  The selection is the library's own on one leaf of the tree: the rows are scanned in
  order, the \<open>k\<close> best so far are kept in a binary heap on the squared distance (a row
  enters only when it is strictly nearer than the worst one kept, which it replaces), and
  at the end the heap is emptied from the worst to the best. With at most 16 rows, the
  default leaf size, the tree is one leaf, and this is also the order in which rows at
  equal distance come out. With more rows the tree has several leaves: the distances are
  the same, and only the order of rows at equal distance can differ from the model.
\<close>

record cKDTree =
  kd_m :: nat
  kd_data :: "real list list"

text \<open>A kept neighbour: its squared distance and its row number.\<close>

type_synonym neighbor = "real \<times> nat"

definition heap_parent :: "nat \<Rightarrow> nat" where
  "heap_parent i = (i - 1) div 2"

definition heap_swap :: "'a list \<Rightarrow> nat \<Rightarrow> nat \<Rightarrow> 'a list" where
  "heap_swap h i j = h[i := h ! j, j := h ! i]"

text \<open>The new last entry of the heap moves up while it is farther than its parent.\<close>

function sift_up :: "neighbor list \<Rightarrow> nat \<Rightarrow> neighbor list" where
  "sift_up h i =
     (if 0 < i \<and> fst (h ! heap_parent i) < fst (h ! i)
      then sift_up (heap_swap h i (heap_parent i)) (heap_parent i)
      else h)"
  by pat_completeness auto
termination
  by (relation "measure (\<lambda>(h, i). i)") (auto simp: heap_parent_def)

text \<open>
  The entry at the top moves down while a child is farther than it, to the right child
  when that one is farther than the left one, else to the left child.
\<close>

function sift_down :: "neighbor list \<Rightarrow> nat \<Rightarrow> neighbor list" where
  "sift_down h i =
     (if (2 * i + 1 < length h \<and> fst (h ! i) < fst (h ! (2 * i + 1)))
         \<or> (2 * i + 2 < length h \<and> fst (h ! i) < fst (h ! (2 * i + 2)))
      then (if 2 * i + 2 < length h \<and> fst (h ! (2 * i + 1)) < fst (h ! (2 * i + 2))
            then sift_down (heap_swap h i (2 * i + 2)) (2 * i + 2)
            else sift_down (heap_swap h i (2 * i + 1)) (2 * i + 1))
      else h)"
  by pat_completeness auto
termination
  by (relation "measure (\<lambda>(h, i). length h - i)") (auto simp: heap_swap_def)

declare sift_up.simps [simp del] sift_down.simps [simp del]

definition heap_push :: "neighbor list \<Rightarrow> neighbor \<Rightarrow> neighbor list" where
  "heap_push h x = sift_up (h @ [x]) (length h)"

text \<open>Removing the top: the last entry takes its place and moves down.\<close>

definition heap_remove :: "neighbor list \<Rightarrow> neighbor list" where
  "heap_remove h = sift_down ((butlast h)[0 := last h]) 0"

text \<open>
  The scan of the rows, each with its number: while fewer than \<open>k\<close> rows are kept every
  row enters; afterwards a row enters when it is strictly nearer than the top of the heap,
  the farthest row kept, which leaves.
\<close>

fun knn_scan ::
  "nat \<Rightarrow> (real list \<Rightarrow> real) \<Rightarrow> (nat \<times> real list) list \<Rightarrow> neighbor list \<Rightarrow> neighbor list" where
  "knn_scan k f [] h = h"
| "knn_scan k f ((i, y) # rest) h =
     (if length h < k then knn_scan k f rest (heap_push h (f y, i))
      else if h \<noteq> [] \<and> f y < fst (hd h)
           then knn_scan k f rest (heap_push (heap_remove h) (f y, i))
           else knn_scan k f rest h)"

text \<open>Emptying a heap of \<open>n\<close> entries: the top is removed \<open>n\<close> times and comes last.\<close>

fun drain :: "nat \<Rightarrow> neighbor list \<Rightarrow> neighbor list" where
  "drain 0 h = []"
| "drain (Suc n) h = drain n (heap_remove h) @ [hd h]"

definition nearest :: "nat \<Rightarrow> (real list \<Rightarrow> real) \<Rightarrow> real list list \<Rightarrow> neighbor list" where
  "nearest k f rows = (let h = knn_scan k f (enumerate 0 rows) [] in drain (length h) h)"

definition kd_row :: "real list list \<Rightarrow> nat \<Rightarrow> real list \<Rightarrow> (npfloat \<times> int) list" where
  "kd_row rows k q =
     (let found = nearest k (L2sqr q) rows
      in map (\<lambda>(d, i). (Fin (sqrt d), int i)) found
         @ replicate (k - length found) (PosInf, int (length rows)))"

definition cKDTree_new :: "real ndarray \<Rightarrow> error + cKDTree" where
  "cKDTree_new X =
     (case X of
        Arr2 c rows \<Rightarrow> Inr \<lparr>kd_m = c, kd_data = rows\<rparr>
      | _ \<Rightarrow> Inl (ValueError ''data must be 2 dimensions''))"

definition cKDTree_query ::
  "cKDTree \<Rightarrow> real ndarray \<Rightarrow> nat \<Rightarrow> error + (npfloat ndarray \<times> int ndarray)" where
  "cKDTree_query t x k =
     (if shape_last x \<noteq> Inr (kd_m t) then Inl (ValueError ''x must consist of vectors of length m'')
      else if k = 0 then Inl LibraryError
      else case x of
        Arr0 v \<Rightarrow> Inl IndexError
      | Arr1 q \<Rightarrow>
          (let r = kd_row (kd_data t) k q in
           if k = 1 then Inr (Arr0 (fst (hd r)), Arr0 (snd (hd r)))
           else Inr (Arr1 (map fst r), Arr1 (map snd r)))
      | Arr2 c qs \<Rightarrow>
          (if k = 1
           then Inr (Arr1 (map (\<lambda>q. fst (hd (kd_row (kd_data t) k q))) qs),
                     Arr1 (map (\<lambda>q. snd (hd (kd_row (kd_data t) k q))) qs))
           else Inr (Arr2 k (map (\<lambda>q. map fst (kd_row (kd_data t) k q)) qs),
                     Arr2 k (map (\<lambda>q. map snd (kd_row (kd_data t) k q)) qs))))"

subsection \<open>Python objects, and what lies outside the process\<close>

text \<open>What the attribute \<^verbatim>\<open>self.index\<close> can hold.\<close>

datatype 'p pyobj =
    PyNone
  | FlatObj IndexFlatL2
  | IVFPQObj "'p IndexIVFPQ"
  | KDObj cKDTree

text \<open>
  The native code of the quantized index and the file operations are parameters: \<open>'p\<close> is
  the trained state, \<open>'w\<close> the world of files. \<open>search_c\<close> fills the \<open>(n, k)\<close> arrays the
  Python wrapper has allocated: it gives the entry of row \<open>i\<close>, column \<open>j\<close>.
\<close>

record ('p, 'w) library =
  train_c :: "'p IndexIVFPQ \<Rightarrow> real list list \<Rightarrow> 'p option"
  add_c :: "'p IndexIVFPQ \<Rightarrow> real list list \<Rightarrow> 'p option"
  search_c :: "'p IndexIVFPQ \<Rightarrow> real list list \<Rightarrow> nat \<Rightarrow> (nat \<Rightarrow> nat \<Rightarrow> npfloat \<times> int) option"
  read_index :: "string \<Rightarrow> 'w \<Rightarrow> 'p pyobj option"
  write_index :: "'p pyobj \<Rightarrow> string \<Rightarrow> 'w \<Rightarrow> bool \<times> 'w"
  pickle_load :: "string \<Rightarrow> 'w \<Rightarrow> 'p pyobj option"
  pickle_dump :: "'p pyobj \<Rightarrow> string \<Rightarrow> 'w \<Rightarrow> bool \<times> 'w"

text \<open>The Python wrappers of the quantized index: shape checks, then the native code.\<close>

definition IndexIVFPQ_train ::
  "('p, 'w) library \<Rightarrow> 'p IndexIVFPQ \<Rightarrow> real ndarray \<Rightarrow> error + 'p IndexIVFPQ" where
  "IndexIVFPQ_train lib ix x =
     (case unpack_shape x of
        Inl e \<Rightarrow> Inl e
      | Inr (d, rows) \<Rightarrow>
          if d \<noteq> pq_d ix then Inl AssertionError
          else case train_c lib ix rows of
                 None \<Rightarrow> Inl RuntimeError
               | Some p \<Rightarrow> Inr (ix\<lparr>payload := Some p\<rparr>))"

definition IndexIVFPQ_add ::
  "('p, 'w) library \<Rightarrow> 'p IndexIVFPQ \<Rightarrow> real ndarray \<Rightarrow> error + 'p IndexIVFPQ" where
  "IndexIVFPQ_add lib ix x =
     (case unpack_shape x of
        Inl e \<Rightarrow> Inl e
      | Inr (d, rows) \<Rightarrow>
          if d \<noteq> pq_d ix then Inl AssertionError
          else case add_c lib ix rows of
                 None \<Rightarrow> Inl RuntimeError
               | Some p \<Rightarrow> Inr (ix\<lparr>payload := Some p\<rparr>))"

definition IndexIVFPQ_search ::
  "('p, 'w) library \<Rightarrow> 'p IndexIVFPQ \<Rightarrow> real ndarray \<Rightarrow> nat
     \<Rightarrow> error + (npfloat ndarray \<times> int ndarray)" where
  "IndexIVFPQ_search lib ix x k =
     (case unpack_shape x of
        Inl e \<Rightarrow> Inl e
      | Inr (d, qs) \<Rightarrow>
          if d \<noteq> pq_d ix then Inl AssertionError
          else if k = 0 then Inl AssertionError
          else case search_c lib ix qs k of
                 None \<Rightarrow> Inl RuntimeError
               | Some f \<Rightarrow>
                   Inr (Arr2 k (map (\<lambda>i. map (\<lambda>j. fst (f i j)) [0..<k]) [0..<length qs]),
                        Arr2 k (map (\<lambda>i. map (\<lambda>j. snd (f i j)) [0..<k]) [0..<length qs])))"

text \<open>
  \<^verbatim>\<open>obj.search(q, k)\<close> and \<^verbatim>\<open>obj.query(x=q, k=k)\<close> on whatever object the attribute
  holds: \<open>None\<close> has neither attribute, a faiss index has no \<^verbatim>\<open>query\<close>, a tree no
  \<^verbatim>\<open>search\<close>.
\<close>

fun obj_search ::
  "('p, 'w) library \<Rightarrow> 'p pyobj \<Rightarrow> real ndarray \<Rightarrow> nat
     \<Rightarrow> error + (npfloat ndarray \<times> int ndarray)" where
  "obj_search lib PyNone q k = Inl AttributeError"
| "obj_search lib (FlatObj ix) q k = IndexFlatL2_search ix q k"
| "obj_search lib (IVFPQObj ix) q k = IndexIVFPQ_search lib ix q k"
| "obj_search lib (KDObj t) q k = Inl AttributeError"

fun obj_query ::
  "'p pyobj \<Rightarrow> real ndarray \<Rightarrow> nat \<Rightarrow> error + (npfloat ndarray \<times> int ndarray)" where
  "obj_query (KDObj t) q k = cKDTree_query t q k"
| "obj_query PyNone q k = Inl AttributeError"
| "obj_query (FlatObj ix) q k = Inl AttributeError"
| "obj_query (IVFPQObj ix) q k = Inl AttributeError"

section \<open>The classes of the module\<close>

datatype backend = FastIndex | MemoryEfficientIndex | cKDTreeIndex

record 'p BaseIndex =
  cls :: backend
  index :: "'p pyobj"

text \<open>\<^verbatim>\<open>_BaseIndex.__init__\<close> (lines 12-13), which every subclass calls: \<^verbatim>\<open>self.index = None\<close>.\<close>

definition BaseIndex_init :: "backend \<Rightarrow> 'p BaseIndex" where
  "BaseIndex_init c = \<lparr>cls = c, index = PyNone\<rparr>"

text \<open>
  A method that assigns to \<^verbatim>\<open>self\<close> returns the instance as it is when the method ends,
  also when it ends by an exception.
\<close>

subsection \<open>FastIndex\<close>

definition FastIndex_create :: "'p BaseIndex \<Rightarrow> real ndarray \<Rightarrow> (error + unit) \<times> 'p BaseIndex" where
  "FastIndex_create self X =
     (case shape_last X of
        Inl e \<Rightarrow> (Inl e, self)
      | Inr d \<Rightarrow>
          (let ix = IndexFlatL2_new d;
               self1 = self\<lparr>index := FlatObj ix\<rparr>
           in case IndexFlatL2_add ix X of
                Inl e \<Rightarrow> (Inl e, self1)
              | Inr ix' \<Rightarrow> (Inr (), self1\<lparr>index := FlatObj ix'\<rparr>)))"

text \<open>
  Lines 59-61 and 92-94, the same text in both classes:
  \<^verbatim>\<open>distances, indices = self.index.search(q, k); return distances[0], indices[0]\<close>.
\<close>

definition search_first ::
  "('p, 'w) library \<Rightarrow> 'p BaseIndex \<Rightarrow> real ndarray \<Rightarrow> nat
     \<Rightarrow> error + (npfloat ndarray \<times> int ndarray)" where
  "search_first lib self q k =
     (case obj_search lib (index self) q k of
        Inl e \<Rightarrow> Inl e
      | Inr (distances, indices) \<Rightarrow>
          (case getitem0 distances of
             Inl e \<Rightarrow> Inl e
           | Inr d0 \<Rightarrow>
               (case getitem0 indices of
                  Inl e \<Rightarrow> Inl e
                | Inr i0 \<Rightarrow> Inr (d0, i0))))"

definition FastIndex_query ::
  "('p, 'w) library \<Rightarrow> 'p BaseIndex \<Rightarrow> real ndarray \<Rightarrow> nat
     \<Rightarrow> error + (npfloat ndarray \<times> int ndarray)" where
  "FastIndex_query lib self q k = search_first lib self q k"

text \<open>
  Lines 63-65: \<^verbatim>\<open>faiss.read_index(str(file_path))\<close> is called and its value dropped; the
  method has no \<^verbatim>\<open>return\<close>, so it returns \<open>None\<close>.
\<close>

definition FastIndex_load :: "('p, 'w) library \<Rightarrow> string \<Rightarrow> 'w \<Rightarrow> error + 'p BaseIndex option" where
  "FastIndex_load lib file_path w =
     (case read_index lib file_path w of
        None \<Rightarrow> Inl RuntimeError
      | Some ix \<Rightarrow> Inr None)"

definition faiss_serialize ::
  "('p, 'w) library \<Rightarrow> 'p BaseIndex \<Rightarrow> string \<Rightarrow> 'w \<Rightarrow> (error + unit) \<times> 'w" where
  "faiss_serialize lib self file_path w =
     (case write_index lib (index self) file_path w of
        (ok, w') \<Rightarrow> (if ok then Inr () else Inl RuntimeError, w'))"

definition FastIndex_serialize ::
  "('p, 'w) library \<Rightarrow> 'p BaseIndex \<Rightarrow> string \<Rightarrow> 'w \<Rightarrow> (error + unit) \<times> 'w" where
  "FastIndex_serialize lib self file_path w = faiss_serialize lib self file_path w"

subsection \<open>MemoryEfficientIndex\<close>

definition no_m_msg :: string where
  "no_m_msg = ''This is not handled, can not find a good value for m''"

text \<open>Lines 79-86: the choice of \<open>m\<close> from the dimension.\<close>

definition select_m :: "nat \<Rightarrow> error + nat" where
  "select_m d =
     (if d mod 4 = 0 then Inr 4
      else if d mod 5 = 0 then Inr 5
      else if d mod 2 = 0 then Inr 2
      else Inl (ValueError no_m_msg))"

definition MemoryEfficientIndex_create ::
  "('p, 'w) library \<Rightarrow> 'p BaseIndex \<Rightarrow> real ndarray \<Rightarrow> (error + unit) \<times> 'p BaseIndex" where
  "MemoryEfficientIndex_create lib self X =
     (case shape_last X of
        Inl e \<Rightarrow> (Inl e, self)
      | Inr d \<Rightarrow>
          (case select_m d of
             Inl e \<Rightarrow> (Inl e, self)
           | Inr m \<Rightarrow>
               (let quantizer = IndexFlatL2_new d;
                    ix = IndexIVFPQ_new quantizer d 100 m 8;
                    self1 = self\<lparr>index := IVFPQObj ix\<rparr>
                in case IndexIVFPQ_train lib ix X of
                     Inl e \<Rightarrow> (Inl e, self1)
                   | Inr ix1 \<Rightarrow>
                       (case IndexIVFPQ_add lib ix1 X of
                          Inl e \<Rightarrow> (Inl e, self1\<lparr>index := IVFPQObj ix1\<rparr>)
                        | Inr ix2 \<Rightarrow> (Inr (), self1\<lparr>index := IVFPQObj ix2\<rparr>)))))"

definition MemoryEfficientIndex_query ::
  "('p, 'w) library \<Rightarrow> 'p BaseIndex \<Rightarrow> real ndarray \<Rightarrow> nat
     \<Rightarrow> error + (npfloat ndarray \<times> int ndarray)" where
  "MemoryEfficientIndex_query lib self q k = search_first lib self q k"

text \<open>Lines 96-100: \<^verbatim>\<open>obj = cls(); obj.index = faiss.read_index(...); return obj\<close>.\<close>

definition MemoryEfficientIndex_load ::
  "('p, 'w) library \<Rightarrow> string \<Rightarrow> 'w \<Rightarrow> error + 'p BaseIndex option" where
  "MemoryEfficientIndex_load lib file_path w =
     (let obj = BaseIndex_init MemoryEfficientIndex
      in case read_index lib file_path w of
           None \<Rightarrow> Inl RuntimeError
         | Some ix \<Rightarrow> Inr (Some (obj\<lparr>index := ix\<rparr>)))"

definition MemoryEfficientIndex_serialize ::
  "('p, 'w) library \<Rightarrow> 'p BaseIndex \<Rightarrow> string \<Rightarrow> 'w \<Rightarrow> (error + unit) \<times> 'w" where
  "MemoryEfficientIndex_serialize lib self file_path w = faiss_serialize lib self file_path w"

subsection \<open>cKDTreeIndex\<close>

definition cKDTreeIndex_create :: "'p BaseIndex \<Rightarrow> real ndarray \<Rightarrow> (error + unit) \<times> 'p BaseIndex" where
  "cKDTreeIndex_create self X =
     (case cKDTree_new X of
        Inl e \<Rightarrow> (Inl e, self)
      | Inr t \<Rightarrow> (Inr (), self\<lparr>index := KDObj t\<rparr>))"

text \<open>Lines 114-116: the pair the tree returns is passed on as it is.\<close>

definition cKDTreeIndex_query ::
  "'p BaseIndex \<Rightarrow> real ndarray \<Rightarrow> nat \<Rightarrow> error + (npfloat ndarray \<times> int ndarray)" where
  "cKDTreeIndex_query self q k =
     (case obj_query (index self) q k of
        Inl e \<Rightarrow> Inl e
      | Inr (top_k_distances, top_k_indices) \<Rightarrow> Inr (top_k_distances, top_k_indices))"

definition cKDTreeIndex_load ::
  "('p, 'w) library \<Rightarrow> string \<Rightarrow> 'w \<Rightarrow> error + 'p BaseIndex option" where
  "cKDTreeIndex_load lib file_path w =
     (let obj = BaseIndex_init cKDTreeIndex
      in case pickle_load lib file_path w of
           None \<Rightarrow> Inl LibraryError
         | Some ix \<Rightarrow> Inr (Some (obj\<lparr>index := ix\<rparr>)))"

definition cKDTreeIndex_serialize ::
  "('p, 'w) library \<Rightarrow> 'p BaseIndex \<Rightarrow> string \<Rightarrow> 'w \<Rightarrow> (error + unit) \<times> 'w" where
  "cKDTreeIndex_serialize lib self file_path w =
     (case pickle_dump lib (index self) file_path w of
        (ok, w') \<Rightarrow> (if ok then Inr () else Inl LibraryError, w'))"

subsection \<open>Calls through a value\<close>

text \<open>
  \<^verbatim>\<open>B.load(path)\<close> for a class \<open>B\<close>, and \<^verbatim>\<open>obj.query(q, k)\<close>, \<^verbatim>\<open>obj.create(X)\<close>,
  \<^verbatim>\<open>obj.serialize(path)\<close> for a value \<open>obj\<close> that is an instance or \<open>None\<close>: Python finds
  the method by the class of the value, and \<open>None\<close> has none of them.
\<close>

fun load :: "('p, 'w) library \<Rightarrow> backend \<Rightarrow> string \<Rightarrow> 'w \<Rightarrow> error + 'p BaseIndex option" where
  "load lib FastIndex file_path w = FastIndex_load lib file_path w"
| "load lib MemoryEfficientIndex file_path w = MemoryEfficientIndex_load lib file_path w"
| "load lib cKDTreeIndex file_path w = cKDTreeIndex_load lib file_path w"

definition query ::
  "('p, 'w) library \<Rightarrow> 'p BaseIndex option \<Rightarrow> real ndarray \<Rightarrow> nat
     \<Rightarrow> error + (npfloat ndarray \<times> int ndarray)" where
  "query lib obj q k =
     (case obj of
        None \<Rightarrow> Inl AttributeError
      | Some self \<Rightarrow>
          (case cls self of
             FastIndex \<Rightarrow> FastIndex_query lib self q k
           | MemoryEfficientIndex \<Rightarrow> MemoryEfficientIndex_query lib self q k
           | cKDTreeIndex \<Rightarrow> cKDTreeIndex_query self q k))"

definition create ::
  "('p, 'w) library \<Rightarrow> 'p BaseIndex \<Rightarrow> real ndarray \<Rightarrow> (error + unit) \<times> 'p BaseIndex" where
  "create lib self X =
     (case cls self of
        FastIndex \<Rightarrow> FastIndex_create self X
      | MemoryEfficientIndex \<Rightarrow> MemoryEfficientIndex_create lib self X
      | cKDTreeIndex \<Rightarrow> cKDTreeIndex_create self X)"

definition serialize ::
  "('p, 'w) library \<Rightarrow> 'p BaseIndex \<Rightarrow> string \<Rightarrow> 'w \<Rightarrow> (error + unit) \<times> 'w" where
  "serialize lib self file_path w =
     (case cls self of
        FastIndex \<Rightarrow> FastIndex_serialize lib self file_path w
      | MemoryEfficientIndex \<Rightarrow> MemoryEfficientIndex_serialize lib self file_path w
      | cKDTreeIndex \<Rightarrow> cKDTreeIndex_serialize lib self file_path w)"

section \<open>Notions the properties are stated with\<close>

text \<open>
  The sequence \<^verbatim>\<open>ix.serialize(path); restored = type(ix).load(path); restored.query(q, k)\<close>.
\<close>

definition save_restore_query ::
  "('p, 'w) library \<Rightarrow> 'p BaseIndex \<Rightarrow> string \<Rightarrow> 'w \<Rightarrow> real ndarray \<Rightarrow> nat
     \<Rightarrow> error + (npfloat ndarray \<times> int ndarray)" where
  "save_restore_query lib self file_path w q k =
     (case serialize lib self file_path w of
        (Inl e, w') \<Rightarrow> Inl e
      | (Inr u, w') \<Rightarrow>
          (case load lib (cls self) file_path w' of
             Inl e \<Rightarrow> Inl e
           | Inr restored \<Rightarrow> query lib restored q k))"

text \<open>The \<open>M\<close> argument of the quantized index an instance holds, if it holds one.\<close>

definition ivfpq_m :: "'p BaseIndex \<Rightarrow> nat option" where
  "ivfpq_m self = (case index self of IVFPQObj ix \<Rightarrow> Some (pq_M ix) | _ \<Rightarrow> None)"

text \<open>The entries of an array in row-major order, and the (index, distance) pairs of a result.\<close>

fun elems :: "'a ndarray \<Rightarrow> 'a list" where
  "elems (Arr0 x) = [x]"
| "elems (Arr1 xs) = xs"
| "elems (Arr2 c rs) = concat rs"

definition result_pairs :: "npfloat ndarray \<times> int ndarray \<Rightarrow> (int \<times> npfloat) set" where
  "result_pairs r = set (zip (elems (snd r)) (elems (fst r)))"


text \<open>The square root of an array element.\<close>

fun np_sqrt :: "npfloat \<Rightarrow> npfloat" where
  "np_sqrt (Fin x) = Fin (sqrt x)"
| "np_sqrt PosInf = PosInf"

text \<open>
  Inputs on which the floating-point arithmetic of the libraries is exact, so that the
  exact-real model is what they compute: a dataset and a query vector of integer
  coordinates, every vector of length \<open>D > 0\<close> and of squared norm at most \<open>2 ^ 20\<close>. Every
  squared distance is then an integer below \<open>2 ^ 24\<close>, which float32 represents, as it does
  every partial sum on the way.
\<close>

definition float_exact :: "nat \<Rightarrow> int list list \<Rightarrow> int list \<Rightarrow> bool" where
  "float_exact D R qv =
     (0 < D \<and>
      list_all (\<lambda>v. length v = D \<and> sum_list (map (\<lambda>x. x * x) v) \<le> 2 ^ 20) (qv # R))"

definition as_reals :: "int list \<Rightarrow> real list" where
  "as_reals v = map real_of_int v"

text \<open>The heap property: no entry is farther than its parent.\<close>

definition heap_ok :: "neighbor list \<Rightarrow> bool" where
  "heap_ok h = (\<forall>i<length h. 0 < i \<longrightarrow> fst (h ! i) \<le> fst (h ! heap_parent i))"

subsection \<open>Concrete inputs\<close>

text \<open>
  A library to run the module on concrete inputs: a file holds the object written to it,
  and \<^verbatim>\<open>faiss.write_index\<close> and \<^verbatim>\<open>faiss.read_index\<close> accept faiss indexes only. Training
  needs as many rows as the quantizers have centroids (\<open>nlist\<close> coarse ones, \<open>2 ^ nbits\<close> for
  each code) and throws on fewer; adding succeeds. The search of the quantized index,
  which no statement below evaluates, is not provided: it throws.
\<close>

definition mem_library :: "(unit, string \<Rightarrow> unit pyobj option) library" where
  "mem_library =
     \<lparr>train_c = (\<lambda>ix rows. if length rows < max (nlist ix) (2 ^ nbits ix) then None else Some ()),
      add_c = (\<lambda>ix rows. Some ()),
      search_c = (\<lambda>ix qs k. None),
      read_index = (\<lambda>p w. case w p of
                             Some (FlatObj ix) \<Rightarrow> Some (FlatObj ix)
                           | Some (IVFPQObj ix) \<Rightarrow> Some (IVFPQObj ix)
                           | _ \<Rightarrow> None),
      write_index = (\<lambda>obj p w. case obj of
                                  FlatObj ix \<Rightarrow> (True, w(p \<mapsto> obj))
                                | IVFPQObj ix \<Rightarrow> (True, w(p \<mapsto> obj))
                                | _ \<Rightarrow> (False, w)),
      pickle_load = (\<lambda>p w. w p),
      pickle_dump = (\<lambda>obj p w. (True, w(p \<mapsto> obj)))\<rparr>"

text \<open>The dataset of the two points \<open>(0, 0)\<close> and \<open>(2, 0)\<close>, and the indexes built on it.\<close>

definition two_points :: "real ndarray" where
  "two_points = Arr2 2 [[0, 0], [2, 0]]"

definition flat_built :: "unit BaseIndex" where
  "flat_built = snd (create mem_library (BaseIndex_init FastIndex) two_points)"

definition tree_built :: "unit BaseIndex" where
  "tree_built = snd (create mem_library (BaseIndex_init cKDTreeIndex) two_points)"

text \<open>
  The six points of the specification's example, and the indexes built on them.
\<close>

definition six_points :: "real ndarray" where
  "six_points = Arr2 2 [[0, 0], [1, 0], [0, 1], [10, 10], [11, 10], [10, 11]]"

definition flat_six :: "unit BaseIndex" where
  "flat_six = snd (create mem_library (BaseIndex_init FastIndex) six_points)"

definition tree_six :: "unit BaseIndex" where
  "tree_six = snd (create mem_library (BaseIndex_init cKDTreeIndex) six_points)"

text \<open>The files after \<^verbatim>\<open>flat_built.serialize("flat.index")\<close>, starting with no file.\<close>

definition flat_saved :: "string \<Rightarrow> unit pyobj option" where
  "flat_saved = snd (serialize mem_library flat_built ''flat.index'' Map.empty)"

section \<open>Facts about the library objects\<close>

subsection \<open>The heap of the tree\<close>

lemma length_swap [simp]: "length (heap_swap h i j) = length h"
  by (simp add: heap_swap_def)

lemma mset_swap_heap: "i < length h \<Longrightarrow> j < length h \<Longrightarrow> mset (heap_swap h i j) = mset h"
  unfolding heap_swap_def by (rule mset_swap)

lemma parent_less: "0 < i \<Longrightarrow> heap_parent i < i"
  by (simp add: heap_parent_def)

lemma length_sift_up [simp]: "length (sift_up h i) = length h"
  by (induction h i rule: sift_up.induct) (subst sift_up.simps, simp)

lemma mset_sift_up: "i < length h \<Longrightarrow> mset (sift_up h i) = mset h"
proof (induction h i rule: sift_up.induct)
  case (1 h i)
  show ?case
  proof (cases "0 < i \<and> fst (h ! heap_parent i) < fst (h ! i)")
    case True
    then have p: "heap_parent i < length h" using "1.prems" parent_less [of i] by simp
    have "mset (sift_up (heap_swap h i (heap_parent i)) (heap_parent i))
        = mset (heap_swap h i (heap_parent i))"
      using "1.IH" True p by simp
    also have "\<dots> = mset h" using "1.prems" p by (simp add: mset_swap_heap)
    finally show ?thesis using True by (subst sift_up.simps) simp
  next
    case False
    then show ?thesis by (subst sift_up.simps) auto
  qed
qed

lemma length_sift_down [simp]: "length (sift_down h i) = length h"
  by (induction h i rule: sift_down.induct) (subst sift_down.simps, simp)

lemma mset_sift_down: "mset (sift_down h i) = mset h"
proof (induction h i rule: sift_down.induct)
  case (1 h i)
  let ?c = "(2 * i + 1 < length h \<and> fst (h ! i) < fst (h ! (2 * i + 1)))
         \<or> (2 * i + 2 < length h \<and> fst (h ! i) < fst (h ! (2 * i + 2)))"
  let ?r = "2 * i + 2 < length h \<and> fst (h ! (2 * i + 1)) < fst (h ! (2 * i + 2))"
  show ?case
  proof (cases ?c)
    case False
    then show ?thesis by (subst sift_down.simps) auto
  next
    case c: True
    show ?thesis
    proof (cases ?r)
      case True
      then have "mset (sift_down (heap_swap h i (2 * i + 2)) (2 * i + 2)) = mset h"
        using "1.IH"(1) c by (simp add: mset_swap_heap)
      then show ?thesis using c True by (subst sift_down.simps) auto
    next
      case False
      from c have l: "2 * i + 1 < length h" by auto
      have "mset (sift_down (heap_swap h i (2 * i + 1)) (2 * i + 1)) = mset h"
        using "1.IH"(2) c False l by (simp add: mset_swap_heap)
      then show ?thesis using c False by (subst sift_down.simps) auto
    qed
  qed
qed

lemma length_heap_push [simp]: "length (heap_push h x) = Suc (length h)"
  by (simp add: heap_push_def)

lemma mset_heap_push [simp]: "mset (heap_push h x) = add_mset x (mset h)"
  by (simp add: heap_push_def mset_sift_up)

lemma length_heap_remove [simp]: "length (heap_remove h) = length h - 1"
  by (simp add: heap_remove_def)

lemma mset_heap_remove: "h \<noteq> [] \<Longrightarrow> add_mset (hd h) (mset (heap_remove h)) = mset h"
proof (cases h)
  case Nil
  then show "h \<noteq> [] \<Longrightarrow> ?thesis" by simp
next
  case (Cons x xs)
  show "h \<noteq> [] \<Longrightarrow> ?thesis"
  proof (cases "xs = []")
    case True
    then show ?thesis using Cons by (simp add: heap_remove_def sift_down.simps)
  next
    case False
    then have "(butlast h)[0 := last h] = last xs # butlast xs"
      using Cons by simp
    moreover have "mset (last xs # butlast xs) = mset xs"
      using False by (metis append_butlast_last_id mset.simps(2) union_mset_add_mset_right mset_append add.right_neutral mset.simps(1))
    ultimately show ?thesis using Cons by (simp add: heap_remove_def mset_sift_down)
  qed
qed

lemma nth_swap:
  "i < length h \<Longrightarrow> j < length h \<Longrightarrow>
   heap_swap h i j ! n = (if n = j then h ! i else if n = i then h ! j else h ! n)"
  by (simp add: heap_swap_def nth_list_update)

lemma parent_child: "0 < j \<Longrightarrow> (heap_parent j = i) = (j = 2 * i + 1 \<or> j = 2 * i + 2)"
  unfolding heap_parent_def by presburger

lemma sift_up_ok:
  assumes "i < length h"
    and "\<forall>j<length h. 0 < j \<longrightarrow> j \<noteq> i \<longrightarrow> fst (h ! j) \<le> fst (h ! heap_parent j)"
    and "\<forall>j<length h. 0 < j \<longrightarrow> heap_parent j = i \<longrightarrow> 0 < i \<longrightarrow> fst (h ! j) \<le> fst (h ! heap_parent i)"
  shows "heap_ok (sift_up h i)"
  using assms
proof (induction h i rule: sift_up.induct)
  case (1 h i)
  let ?p = "heap_parent i"
  show ?case
  proof (cases "0 < i \<and> fst (h ! ?p) < fst (h ! i)")
    case False
    have "heap_ok h"
      unfolding heap_ok_def
    proof (intro allI impI)
      fix j assume j: "j < length h" "0 < j"
      show "fst (h ! j) \<le> fst (h ! heap_parent j)"
      proof (cases "j = i")
        case True
        then show ?thesis using False j by auto
      next
        case False
        then show ?thesis using "1.prems"(2) j by simp
      qed
    qed
    then show ?thesis using False by (subst sift_up.simps) auto
  next
    case True
    then have i0: "0 < i" and lt: "fst (h ! ?p) < fst (h ! i)" by simp_all
    have pi: "?p < i" using i0 by (rule parent_less)
    have pl: "?p < length h" using pi "1.prems"(1) by simp
    let ?h = "heap_swap h i ?p"
    have nth: "?h ! n = (if n = ?p then h ! i else if n = i then h ! ?p else h ! n)" for n
      by (rule nth_swap [OF "1.prems"(1) pl])
    have b: "\<forall>j<length ?h. 0 < j \<longrightarrow> j \<noteq> ?p \<longrightarrow> fst (?h ! j) \<le> fst (?h ! heap_parent j)"
    proof (intro allI impI)
      fix j assume j: "j < length ?h" "0 < j" "j \<noteq> ?p"
      then have jl: "j < length h" by simp
      have pj: "heap_parent j < j" using j(2) by (rule parent_less)
      show "fst (?h ! j) \<le> fst (?h ! heap_parent j)"
      proof (cases "j = i")
        case True
        then show ?thesis using lt pi by (simp add: nth)
      next
        case ji: False
        have hj: "fst (h ! j) \<le> fst (h ! heap_parent j)" using "1.prems"(2) jl j(2) ji by simp
        show ?thesis
        proof (cases "heap_parent j = i")
          case True
          then have "fst (h ! j) \<le> fst (h ! ?p)" using "1.prems"(3) jl j(2) i0 by simp
          then show ?thesis using True ji j(3) pi by (simp add: nth)
        next
          case npi: False
          show ?thesis
          proof (cases "heap_parent j = ?p")
            case True
            then show ?thesis using hj lt ji j(3) npi by (simp add: nth)
          next
            case False
            then show ?thesis using hj ji j(3) npi by (simp add: nth)
          qed
        qed
      qed
    qed
    have c: "\<forall>j<length ?h. 0 < j \<longrightarrow> heap_parent j = ?p \<longrightarrow> 0 < ?p
                \<longrightarrow> fst (?h ! j) \<le> fst (?h ! heap_parent ?p)"
    proof (intro allI impI)
      fix j assume j: "j < length ?h" "0 < j" "heap_parent j = ?p" "0 < ?p"
      then have jl: "j < length h" by simp
      have pp: "heap_parent ?p < ?p" using j(4) by (rule parent_less)
      have pj: "heap_parent j < j" using j(2) by (rule parent_less)
      have top: "fst (h ! ?p) \<le> fst (h ! heap_parent ?p)"
        using "1.prems"(2) pl j(4) pi by simp
      have e: "?h ! heap_parent ?p = h ! heap_parent ?p" using pp pi by (simp add: nth)
      show "fst (?h ! j) \<le> fst (?h ! heap_parent ?p)"
      proof (cases "j = i")
        case True
        then show ?thesis using top e pi by (simp add: nth)
      next
        case False
        then have "fst (h ! j) \<le> fst (h ! ?p)" using "1.prems"(2) jl j(2,3) by auto
        moreover have "?h ! j = h ! j" using False pj j(3) by (simp add: nth)
        ultimately show ?thesis using top e by simp
      qed
    qed
    have "heap_ok (sift_up ?h ?p)"
      using "1.IH" [OF True] pl b c by simp
    then show ?thesis using True by (subst sift_up.simps) simp
  qed
qed

lemma heap_ok_push: "heap_ok h \<Longrightarrow> heap_ok (heap_push h x)"
  unfolding heap_push_def
proof (rule sift_up_ok)
  assume ok: "heap_ok h"
  show "length h < length (h @ [x])" by simp
  show "\<forall>j<length (h @ [x]). 0 < j \<longrightarrow> j \<noteq> length h \<longrightarrow>
          fst ((h @ [x]) ! j) \<le> fst ((h @ [x]) ! heap_parent j)"
  proof (intro allI impI)
    fix j assume j: "j < length (h @ [x])" "0 < j" "j \<noteq> length h"
    then have jl: "j < length h" by simp
    moreover have "heap_parent j < length h" using parent_less [OF j(2)] jl by simp
    ultimately show "fst ((h @ [x]) ! j) \<le> fst ((h @ [x]) ! heap_parent j)"
      using ok j(2) by (simp add: nth_append heap_ok_def)
  qed
  show "\<forall>j<length (h @ [x]). 0 < j \<longrightarrow> heap_parent j = length h \<longrightarrow> 0 < length h \<longrightarrow>
          fst ((h @ [x]) ! j) \<le> fst ((h @ [x]) ! heap_parent (length h))"
  proof (intro allI impI)
    fix j assume j: "j < length (h @ [x])" "0 < j" "heap_parent j = length h"
    from parent_less [OF j(2)] j(1,3) have False by simp
    then show "fst ((h @ [x]) ! j) \<le> fst ((h @ [x]) ! heap_parent (length h))" ..
  qed
qed

lemma sift_down_ok:
  assumes "\<forall>j<length h. 0 < j \<longrightarrow> heap_parent j \<noteq> i \<longrightarrow> fst (h ! j) \<le> fst (h ! heap_parent j)"
    and "\<forall>j<length h. 0 < j \<longrightarrow> heap_parent j = i \<longrightarrow> 0 < i \<longrightarrow> fst (h ! j) \<le> fst (h ! heap_parent i)"
  shows "heap_ok (sift_down h i)"
  using assms
proof (induction h i rule: sift_down.induct)
  case (1 h i)
  let ?l = "2 * i + 1" and ?r = "2 * i + 2"
  let ?c = "(?l < length h \<and> fst (h ! i) < fst (h ! ?l))
         \<or> (?r < length h \<and> fst (h ! i) < fst (h ! ?r))"
  let ?right = "?r < length h \<and> fst (h ! ?l) < fst (h ! ?r)"
  show ?case
  proof (cases ?c)
    case False
    have "heap_ok h"
      unfolding heap_ok_def
    proof (intro allI impI)
      fix j assume j: "j < length h" "0 < j"
      show "fst (h ! j) \<le> fst (h ! heap_parent j)"
      proof (cases "heap_parent j = i")
        case True
        then have "j = ?l \<or> j = ?r" using parent_child [OF j(2)] by simp
        then show ?thesis using False j True by auto
      next
        case False
        then show ?thesis using "1.prems"(1) j by simp
      qed
    qed
    then show ?thesis using False by (subst sift_down.simps) auto
  next
    case c: True
    define m where "m = (if ?right then ?r else ?l)"
    have ml: "m < length h" using c by (auto simp: m_def)
    have il: "i < length h" using ml by (auto simp: m_def split: if_splits)
    have im: "i < m" by (simp add: m_def)
    have pm: "heap_parent m = i" by (simp add: m_def heap_parent_def)
    have big: "fst (h ! i) < fst (h ! m)" using c by (auto simp: m_def)
    have sib: "fst (h ! j) \<le> fst (h ! m)" if "j < length h" "0 < j" "heap_parent j = i" for j
    proof -
      from that have "j = ?l \<or> j = ?r" using parent_child [of j i] by simp
      then show ?thesis using that(1) by (auto simp: m_def)
    qed
    let ?h = "heap_swap h i m"
    have nth: "?h ! n = (if n = m then h ! i else if n = i then h ! m else h ! n)" for n
      by (rule nth_swap [OF il ml])
    have a: "\<forall>j<length ?h. 0 < j \<longrightarrow> heap_parent j \<noteq> m \<longrightarrow> fst (?h ! j) \<le> fst (?h ! heap_parent j)"
    proof (intro allI impI)
      fix j assume j: "j < length ?h" "0 < j" "heap_parent j \<noteq> m"
      then have jl: "j < length h" by simp
      have pj: "heap_parent j < j" using j(2) by (rule parent_less)
      show "fst (?h ! j) \<le> fst (?h ! heap_parent j)"
      proof (cases "j = m")
        case True
        then show ?thesis using big pm im by (simp add: nth)
      next
        case jm: False
        show ?thesis
        proof (cases "j = i")
          case True
          then have i0: "0 < i" using j(2) by simp
          have "fst (h ! m) \<le> fst (h ! heap_parent i)"
            using "1.prems"(2) ml pm i0 im by simp
          moreover have "heap_parent i \<noteq> m" "heap_parent i \<noteq> i"
            using parent_less [OF i0] im by simp_all
          ultimately show ?thesis using True im by (simp add: nth)
        next
          case ji: False
          show ?thesis
          proof (cases "heap_parent j = i")
            case True
            then show ?thesis using sib [OF jl j(2) True] jm ji im by (simp add: nth)
          next
            case False
            then have "fst (h ! j) \<le> fst (h ! heap_parent j)" using "1.prems"(1) jl j(2) by simp
            then show ?thesis using False jm ji j(3) by (simp add: nth)
          qed
        qed
      qed
    qed
    have b: "\<forall>j<length ?h. 0 < j \<longrightarrow> heap_parent j = m \<longrightarrow> 0 < m
                \<longrightarrow> fst (?h ! j) \<le> fst (?h ! heap_parent m)"
    proof (intro allI impI)
      fix j assume j: "j < length ?h" "0 < j" "heap_parent j = m" "0 < m"
      then have jl: "j < length h" by simp
      have pj: "heap_parent j < j" using j(2) by (rule parent_less)
      have "heap_parent j \<noteq> i" using j(3) im by simp
      then have "fst (h ! j) \<le> fst (h ! m)" using "1.prems"(1) jl j(2,3) by auto
      moreover have "j \<noteq> m" "j \<noteq> i" using pj j(3) im by simp_all
      ultimately show "fst (?h ! j) \<le> fst (?h ! heap_parent m)"
        using pm im by (simp add: nth)
    qed
    show ?thesis
    proof (cases ?right)
      case True
      then have m: "m = ?r" by (simp add: m_def)
      have "heap_ok (sift_down (heap_swap h i ?r) ?r)"
        using "1.IH"(1) [OF c True] a b unfolding m by simp
      then show ?thesis using c True by (subst sift_down.simps) auto
    next
      case False
      then have m: "m = ?l" by (simp add: m_def)
      have "heap_ok (sift_down (heap_swap h i ?l) ?l)"
        using "1.IH"(2) [OF c False] a b unfolding m by simp
      then show ?thesis using c False by (subst sift_down.simps) auto
    qed
  qed
qed

lemma heap_ok_remove: "heap_ok h \<Longrightarrow> heap_ok (heap_remove h)"
  unfolding heap_remove_def
proof (rule sift_down_ok)
  assume ok: "heap_ok h"
  let ?h = "(butlast h)[0 := last h]"
  show "\<forall>j<length ?h. 0 < j \<longrightarrow> heap_parent j \<noteq> 0 \<longrightarrow> fst (?h ! j) \<le> fst (?h ! heap_parent j)"
  proof (intro allI impI)
    fix j assume j: "j < length ?h" "0 < j" "heap_parent j \<noteq> 0"
    then have jl: "j < length h - 1" by simp
    have pj: "heap_parent j < j" using j(2) by (rule parent_less)
    have "fst (h ! j) \<le> fst (h ! heap_parent j)" using ok jl j(2) by (simp add: heap_ok_def)
    then show "fst (?h ! j) \<le> fst (?h ! heap_parent j)"
      using jl pj j(2,3) by (simp add: nth_butlast)
  qed
  show "\<forall>j<length ?h. 0 < j \<longrightarrow> heap_parent j = 0 \<longrightarrow> 0 < (0::nat)
          \<longrightarrow> fst (?h ! j) \<le> fst (?h ! heap_parent 0)"
    by simp
qed

lemma heap_ok_top: "heap_ok h \<Longrightarrow> i < length h \<Longrightarrow> fst (h ! i) \<le> fst (h ! 0)"
proof (induction i rule: less_induct)
  case (less i)
  show ?case
  proof (cases "i = 0")
    case True
    then show ?thesis by simp
  next
    case False
    then have i0: "0 < i" by simp
    have pi: "heap_parent i < i" using i0 by (rule parent_less)
    have "fst (h ! i) \<le> fst (h ! heap_parent i)" using less.prems i0 by (simp add: heap_ok_def)
    also have "\<dots> \<le> fst (h ! 0)" using less.IH [OF pi less.prems(1)] pi less.prems(2) by simp
    finally show ?thesis .
  qed
qed

lemma heap_ok_Nil [simp]: "heap_ok []"
  by (simp add: heap_ok_def)

lemma heap_ok_hd: "heap_ok h \<Longrightarrow> x \<in> set h \<Longrightarrow> fst x \<le> fst (hd h)"
  by (metis heap_ok_top hd_conv_nth in_set_conv_nth length_greater_0_conv length_pos_if_in_set)

lemma set_heap_remove: "x \<in> set (heap_remove h) \<Longrightarrow> x \<in> set h"
proof (cases "h = []")
  case True
  then show "x \<in> set (heap_remove h) \<Longrightarrow> ?thesis" by (simp add: heap_remove_def sift_down.simps)
next
  case False
  assume "x \<in> set (heap_remove h)"
  then have "x \<in># mset (heap_remove h)" by simp
  then have "x \<in># add_mset (hd h) (mset (heap_remove h))" by simp
  then show ?thesis using mset_heap_remove [OF False] by (metis set_mset_mset)
qed

lemma drain_sorted:
  "heap_ok h \<Longrightarrow> length h = n \<Longrightarrow>
   sorted (map fst (drain n h)) \<and> mset (drain n h) = mset h"
proof (induction n arbitrary: h)
  case 0
  then show ?case by simp
next
  case (Suc n)
  then have ne: "h \<noteq> []" by auto
  let ?h = "heap_remove h"
  have ok: "heap_ok ?h" using Suc.prems(1) by (rule heap_ok_remove)
  have len: "length ?h = n" using Suc.prems(2) by simp
  from Suc.IH [OF ok len] have s: "sorted (map fst (drain n ?h))"
    and m: "mset (drain n ?h) = mset ?h" by simp_all
  have "fst x \<le> fst (hd h)" if "x \<in> set (drain n ?h)" for x
  proof -
    from that m have "x \<in> set ?h" by (metis set_mset_mset)
    then have "x \<in> set h" by (rule set_heap_remove)
    then show ?thesis using Suc.prems(1) by (rule heap_ok_hd [rotated])
  qed
  then have "sorted (map fst (drain n ?h @ [hd h]))"
    using s by (auto simp: sorted_append)
  moreover have "mset (drain n ?h @ [hd h]) = mset h"
    using m mset_heap_remove [OF ne] by simp
  ultimately show ?case by simp
qed

lemma take_insort_many_below:
  "sorted xs \<Longrightarrow> k \<le> length (filter (\<lambda>x. x \<le> t) xs) \<Longrightarrow> take k (insort t xs) = take k xs"
proof (induction xs arbitrary: k)
  case Nil
  then show ?case by simp
next
  case (Cons x xs)
  show ?case
  proof (cases k)
    case 0
    then show ?thesis by simp
  next
    case (Suc k')
    show ?thesis
    proof (cases "t \<le> x")
      case True
      have all: "\<forall>y\<in>set xs. x \<le> y" using Cons.prems(1) by simp
      have "\<exists>y\<in>set (x # xs). y \<le> t"
        using Cons.prems(2) Suc by (metis filter_False length_0_conv Zero_not_Suc le_zero_eq)
      then have "x \<le> t" using all by auto
      with True have xt: "x = t" by simp
      have k': "k' \<le> length (filter (\<lambda>x. x \<le> t) xs)" using Cons.prems(2) Suc xt by simp
      have "insort t xs = t # xs" using all xt by (simp add: insort_is_Cons)
      moreover have "take k' (insort t xs) = take k' xs"
        using Cons.IH [of k'] Cons.prems(1) k' by simp
      ultimately show ?thesis using Suc xt by simp
    next
      case False
      then have k': "k' \<le> length (filter (\<lambda>x. x \<le> t) xs)"
        using Cons.prems(2) Suc by (auto split: if_splits)
      have "take k' (insort t xs) = take k' xs"
        using Cons.IH [of k'] Cons.prems(1) k' by simp
      then show ?thesis using False Suc by simp
    qed
  qed
qed

lemma sort_cong_mset: "mset xs = mset ys \<Longrightarrow> sort xs = sort (ys :: real list)"
  by (rule properties_for_sort) simp_all

lemma sort_add_mset:
  "mset zs = add_mset t (mset ys) \<Longrightarrow> sort zs = insort t (sort (ys :: real list))"
  by (rule properties_for_sort) (simp_all add: sorted_insort)

lemma length_filter_sort: "length (filter P (sort zs)) = length (filter P (zs :: real list))"
  by (metis mset_filter mset_sort size_mset)

lemma take_sort_drop_large:
  assumes "mset zs = add_mset t (mset (ys @ R))" "k \<le> length ys" "\<forall>y\<in>set ys. y \<le> t"
  shows "take k (sort zs) = take k (sort (ys @ R :: real list))"
proof -
  have "filter (\<lambda>x. x \<le> t) ys = ys" using assms(3) by simp
  then have "k \<le> length (filter (\<lambda>x. x \<le> t) (ys @ R))" using assms(2) by simp
  then have "k \<le> length (filter (\<lambda>x. x \<le> t) (sort (ys @ R)))" by (simp add: length_filter_sort)
  then have "take k (insort t (sort (ys @ R))) = take k (sort (ys @ R))"
    by (intro take_insort_many_below) simp_all
  then show ?thesis using sort_add_mset [OF assms(1)] by simp
qed

lemma set_heap_push: "set (heap_push h x) = insert x (set h)"
  by (metis mset_heap_push set_mset_add_mset_insert set_mset_mset)

lemma knn_scan_inv:
  assumes "heap_ok h" "length h \<le> k"
  shows "heap_ok (knn_scan k f xs h)
       \<and> sort (map fst (knn_scan k f xs h)) = take k (sort (map fst h @ map (\<lambda>(i, y). f y) xs))
       \<and> set (knn_scan k f xs h) \<subseteq> set h \<union> (\<lambda>(i, y). (f y, i)) ` set xs"
  using assms
proof (induction xs arbitrary: h)
  case Nil
  then show ?case by simp
next
  case (Cons p rest)
  obtain i y where p: "p = (i, y)" by (cases p)
  let ?R = "map (\<lambda>(i, y). f y) rest"
  let ?d = "f y"
  show ?case
  proof (cases "length h < k")
    case True
    let ?h = "heap_push h (?d, i)"
    have ok: "heap_ok ?h" using Cons.prems(1) by (rule heap_ok_push)
    have len: "length ?h \<le> k" using True by simp
    note IH = Cons.IH [OF ok len]
    have "mset (map fst ?h @ ?R) = mset (map fst h @ ?d # ?R)"
      by simp
    then have "sort (map fst ?h @ ?R) = sort (map fst h @ ?d # ?R)"
      by (rule sort_cong_mset)
    moreover have "knn_scan k f (p # rest) h = knn_scan k f rest ?h"
      using True p by simp
    ultimately show ?thesis using IH p by (auto simp: set_heap_push)
  next
    case full: False
    then have lk: "length h = k" using Cons.prems(2) by simp
    show ?thesis
    proof (cases "h \<noteq> [] \<and> ?d < fst (hd h)")
      case True
      then have ne: "h \<noteq> []" and lt: "?d < fst (hd h)" by simp_all
      let ?t = "fst (hd h)"
      let ?h = "heap_push (heap_remove h) (?d, i)"
      have ok: "heap_ok ?h" using Cons.prems(1) by (intro heap_ok_push heap_ok_remove)
      have len: "length ?h = k" using lk ne by (cases h) simp_all
      note IH = Cons.IH [OF ok] 
      have m: "mset (map fst h) = add_mset ?t (mset (map fst (heap_remove h)))"
        using mset_heap_remove [OF ne] by (metis image_mset_add_mset mset_map)
      have "mset (map fst h @ ?d # ?R) = add_mset ?t (mset (map fst ?h @ ?R))"
        using m by simp
      moreover have "\<forall>v\<in>set (map fst ?h). v \<le> ?t"
      proof
        fix v assume "v \<in> set (map fst ?h)"
        then obtain x where x: "x \<in> set ?h" "v = fst x" by auto
        then have "x = (?d, i) \<or> x \<in> set (heap_remove h)" by (simp add: set_heap_push)
        then show "v \<le> ?t"
        proof
          assume "x = (?d, i)"
          then show ?thesis using lt x(2) by simp
        next
          assume "x \<in> set (heap_remove h)"
          then have "x \<in> set h" by (rule set_heap_remove)
          then show ?thesis using heap_ok_hd [OF Cons.prems(1)] x(2) by simp
        qed
      qed
      ultimately have "take k (sort (map fst h @ ?d # ?R)) = take k (sort (map fst ?h @ ?R))"
        using len by (intro take_sort_drop_large) simp_all
      moreover have "knn_scan k f (p # rest) h = knn_scan k f rest ?h"
        using full True p by simp
      moreover have "set ?h \<subseteq> insert (?d, i) (set h)"
        using set_heap_remove [of _ h] by (auto simp: set_heap_push)
      ultimately show ?thesis using IH len p by auto
    next
      case False
      note IH = Cons.IH [OF Cons.prems]
      have "\<forall>v\<in>set (map fst h). v \<le> ?d"
      proof
        fix v assume "v \<in> set (map fst h)"
        then obtain x where x: "x \<in> set h" "v = fst x" by auto
        then have "h \<noteq> []" by auto
        then have "fst (hd h) \<le> ?d" using False by simp
        then show "v \<le> ?d" using heap_ok_hd [OF Cons.prems(1) x(1)] x(2) by simp
      qed
      moreover have "mset (map fst h @ ?d # ?R) = add_mset ?d (mset (map fst h @ ?R))"
        by simp
      ultimately have "take k (sort (map fst h @ ?d # ?R)) = take k (sort (map fst h @ ?R))"
        using lk by (intro take_sort_drop_large) simp_all
      moreover have "knn_scan k f (p # rest) h = knn_scan k f rest h"
        using full False p by auto
      ultimately show ?thesis using IH p by auto
    qed
  qed
qed

lemma map_enumerate_key: "map (\<lambda>(i, y). f y) (enumerate n xs) = map f xs"
  by (induction xs arbitrary: n) simp_all

lemma map_sort_key: "map g (sort_key g xs) = sort (map g xs)"
  by (rule properties_for_sort [symmetric]) simp_all

lemma nearest_keys:
  "map fst (nearest k f rows) = take k (sort (map f rows))"
proof -
  let ?H = "knn_scan k f (enumerate 0 rows) []"
  have inv: "heap_ok ?H"
    "sort (map fst ?H) = take k (sort (map (\<lambda>(i, y). f y) (enumerate 0 rows)))"
    using knn_scan_inv [of "[]" k f "enumerate 0 rows"] by simp_all
  have e: "map (\<lambda>(i, y). f y) (enumerate 0 rows) = map f rows"
    by (rule map_enumerate_key)
  from drain_sorted [OF inv(1) refl]
  have "sorted (map fst (drain (length ?H) ?H))" "mset (drain (length ?H) ?H) = mset ?H"
    by simp_all
  then have "sort (map fst ?H) = map fst (drain (length ?H) ?H)"
    by (intro properties_for_sort) simp_all
  then show ?thesis using inv(2) e by (simp add: nearest_def Let_def)
qed

lemma length_nearest: "length (nearest k f rows) = min k (length rows)"
  using arg_cong [OF nearest_keys, of length k f rows] by (simp add: min.commute)

lemma set_nearest:
  "set (nearest k f rows) \<subseteq> (\<lambda>(i, y). (f y, i)) ` set (enumerate 0 rows)"
proof -
  let ?H = "knn_scan k f (enumerate 0 rows) []"
  have "heap_ok ?H" "set ?H \<subseteq> (\<lambda>(i, y). (f y, i)) ` set (enumerate 0 rows)"
    using knn_scan_inv [of "[]" k f "enumerate 0 rows"] by simp_all
  moreover from drain_sorted [OF this(1) refl] have "set (drain (length ?H) ?H) = set ?H"
    by (metis set_mset_mset)
  ultimately show ?thesis by (simp add: nearest_def Let_def)
qed

lemma ranked_keys:
  "map (\<lambda>(i, y). f y) (take k (sort_key (\<lambda>(i, y). f y) (enumerate 0 rows)))
     = take k (sort (map f rows))"
proof -
  have e: "map (\<lambda>(i, y). f y) (enumerate 0 rows) = map f rows"
    by (rule map_enumerate_key)
  have "map (\<lambda>(i, y). f y) (take k (sort_key (\<lambda>(i, y). f y) (enumerate 0 rows)))
      = take k (map (\<lambda>(i, y). f y) (sort_key (\<lambda>(i, y). f y) (enumerate 0 rows)))"
    by (simp only: take_map)
  also have "\<dots> = take k (sort (map (\<lambda>(i, y). f y) (enumerate 0 rows)))"
    by (simp only: map_sort_key)
  finally show ?thesis by (simp only: e)
qed

lemma nearest_distinct:
  assumes "distinct (map f rows)"
  shows "nearest k f rows
     = map (\<lambda>(i, y). (f y, i)) (take k (sort_key (\<lambda>(i, y). f y) (enumerate 0 rows)))"
    (is "?D = map ?g ?F")
proof (rule nth_equalityI)
  have keys: "map fst ?D = map (\<lambda>(i, y). f y) ?F"
    by (simp only: nearest_keys ranked_keys)
  then show len: "length ?D = length (map ?g ?F)" by (metis length_map)
  fix j assume j: "j < length ?D"
  then have jF: "j < length ?F" using len by simp
  have "?D ! j \<in> (\<lambda>(i, y). (f y, i)) ` set (enumerate 0 rows)"
    using set_nearest [of k f rows] j nth_mem by blast
  then obtain i y where iy: "(i, y) \<in> set (enumerate 0 rows)" "?D ! j = (f y, i)" by auto
  obtain i' y' where iy': "?F ! j = (i', y')" by (cases "?F ! j")
  have "?F ! j \<in> set (enumerate 0 rows)"
    using nth_mem [OF jF] by (metis in_set_takeD set_sort)
  then have m': "(i', y') \<in> set (enumerate 0 rows)" using iy' by simp
  have "fst (?D ! j) = (\<lambda>(i, y). f y) (?F ! j)"
    using keys j jF by (metis nth_map)
  then have fe: "f y = f y'" using iy(2) iy' by simp
  from iy(1) have a: "i < length rows" "rows ! i = y" by (simp_all add: in_set_enumerate_eq)
  from m' have b: "i' < length rows" "rows ! i' = y'" by (simp_all add: in_set_enumerate_eq)
  have "map f rows ! i = map f rows ! i'" using a b fe by simp
  moreover have "i < length (map f rows)" "i' < length (map f rows)" using a(1) b(1) by simp_all
  ultimately have "i = i'" using assms by (metis nth_eq_iff_index_eq)
  then show "?D ! j = map ?g ?F ! j" using iy(2) iy' jF a b by simp
qed

subsection \<open>Rows of results\<close>

lemma length_ranked: "length (ranked f rows) = length rows"
  by (simp add: ranked_def)

lemma length_flat_row: "length (flat_row rows k q) = k"
  by (simp add: flat_row_def length_ranked)

lemma flat_row_pad:
  "drop (length rows) (map snd (flat_row rows k q)) = replicate (k - length rows) (- 1)"
  by (simp add: flat_row_def length_ranked)

lemma L2sqr_nonneg: "0 \<le> L2sqr x y"
  unfolding L2sqr_def by (rule sum_list_nonneg) auto

lemma flat_row_within:
  "k \<le> length rows \<Longrightarrow>
   flat_row rows k q = map (\<lambda>(i, y). (Fin (L2sqr q y), int i)) (take k (ranked (L2sqr q) rows))"
  by (simp add: flat_row_def)

lemma flat_row_nonneg:
  assumes "k \<le> length rows" "j < k"
  shows "\<exists>x\<ge>0. map fst (flat_row rows k q) ! j = Fin x"
proof -
  have j: "j < length (take k (ranked (L2sqr q) rows))" using assms by (simp add: length_ranked)
  obtain i y where iy: "take k (ranked (L2sqr q) rows) ! j = (i, y)"
    by (cases "take k (ranked (L2sqr q) rows) ! j")
  have "map fst (flat_row rows k q) ! j = Fin (L2sqr q y)"
    using j iy by (simp add: flat_row_within [OF assms(1)])
  then show ?thesis using L2sqr_nonneg by blast
qed

lemma length_kd_row: "length (kd_row rows k q) = k"
  by (simp add: kd_row_def Let_def length_nearest)

lemma kd_row_within:
  "k \<le> length rows \<Longrightarrow>
   kd_row rows k q = map (\<lambda>(d, i). (Fin (sqrt d), int i)) (nearest k (L2sqr q) rows)"
  by (simp add: kd_row_def Let_def length_nearest)

lemma kd_row_pad:
  "drop (length rows) (kd_row rows k q) = replicate (k - length rows) (PosInf, int (length rows))"
  by (cases "k \<le> length rows") (simp_all add: kd_row_def Let_def length_nearest)

text \<open>
  Within the number of rows, the distances of the tree are the square roots of those of
  the flat index, and where no two rows are at the same distance the row numbers agree.
\<close>

lemma kd_row_distances:
  assumes "k \<le> length rows"
  shows "map fst (kd_row rows k q) = map np_sqrt (map fst (flat_row rows k q))"
proof -
  have "map fst (kd_row rows k q) = map (\<lambda>d. Fin (sqrt d)) (map fst (nearest k (L2sqr q) rows))"
    by (simp add: kd_row_within [OF assms] case_prod_unfold)
  also have "map fst (nearest k (L2sqr q) rows)
      = map (\<lambda>(i, y). L2sqr q y) (take k (ranked (L2sqr q) rows))"
    by (simp only: nearest_keys ranked_keys ranked_def)
  finally show ?thesis
    by (simp add: flat_row_within [OF assms] case_prod_unfold)
qed

lemma kd_row_indices:
  assumes "k \<le> length rows" "distinct (map (L2sqr q) rows)"
  shows "map snd (kd_row rows k q) = map snd (flat_row rows k q)"
  by (simp add: kd_row_within [OF assms(1)] flat_row_within [OF assms(1)]
      nearest_distinct [OF assms(2)] ranked_def case_prod_unfold)

lemma sqrt_fixed: "0 \<le> x \<Longrightarrow> (sqrt x = x) = (x = 0 \<or> x = 1)"
proof
  assume x: "0 \<le> x" and "sqrt x = x"
  then have "x * x = x" by (metis real_sqrt_mult_self abs_of_nonneg)
  then have "x * (x - 1) = 0" by (simp add: algebra_simps)
  then show "x = 0 \<or> x = 1" by auto
next
  assume "x = 0 \<or> x = 1"
  then show "sqrt x = x" by auto
qed

lemma train_keeps_M: "IndexIVFPQ_train lib ix X = Inr ix' \<Longrightarrow> pq_M ix' = pq_M ix"
  by (cases X) (auto simp: IndexIVFPQ_train_def split: if_splits option.splits)

lemma add_keeps_M: "IndexIVFPQ_add lib ix X = Inr ix' \<Longrightarrow> pq_M ix' = pq_M ix"
  by (cases X) (auto simp: IndexIVFPQ_add_def split: if_splits option.splits)

lemma train_error: "IndexIVFPQ_train lib ix X = Inl e \<Longrightarrow> e \<noteq> ValueError no_m_msg"
  by (cases X)
     (auto simp: IndexIVFPQ_train_def no_m_msg_def unpack_msg_def split: if_splits option.splits)

lemma add_error: "IndexIVFPQ_add lib ix X = Inl e \<Longrightarrow> e \<noteq> ValueError no_m_msg"
  by (cases X)
     (auto simp: IndexIVFPQ_add_def no_m_msg_def unpack_msg_def split: if_splits option.splits)

section \<open>Facts about the classes\<close>

lemma FastIndex_create_built:
  "FastIndex_create self (Arr2 D rows) =
     (Inr (), self\<lparr>index := FlatObj \<lparr>flat_d = D, xb = rows\<rparr>\<rparr>)"
  by (simp add: FastIndex_create_def IndexFlatL2_new_def IndexFlatL2_add_def)

lemma cKDTreeIndex_create_built:
  "cKDTreeIndex_create self (Arr2 D rows) =
     (Inr (), self\<lparr>index := KDObj \<lparr>kd_m = D, kd_data = rows\<rparr>\<rparr>)"
  by (simp add: cKDTreeIndex_create_def cKDTree_new_def)

lemma FastIndex_query_flat:
  "index self = FlatObj ix \<Longrightarrow> flat_d ix = D \<Longrightarrow> 0 < k \<Longrightarrow>
   FastIndex_query lib self (Arr2 D (q0 # qs)) k =
     Inr (Arr1 (map fst (flat_row (xb ix) k q0)), Arr1 (map snd (flat_row (xb ix) k q0)))"
  by (simp add: FastIndex_query_def search_first_def IndexFlatL2_search_def)

lemma MemoryEfficientIndex_query_ivfpq:
  "index self = IVFPQObj ix \<Longrightarrow> pq_d ix = D \<Longrightarrow> 0 < k \<Longrightarrow>
   search_c lib ix (q0 # qs) k = Some f \<Longrightarrow>
   MemoryEfficientIndex_query lib self (Arr2 D (q0 # qs)) k =
     Inr (Arr1 (map (\<lambda>j. fst (f 0 j)) [0..<k]), Arr1 (map (\<lambda>j. snd (f 0 j)) [0..<k]))"
  by (simp add: MemoryEfficientIndex_query_def search_first_def IndexIVFPQ_search_def upt_conv_Cons
           del: upt_Suc)

lemma cKDTreeIndex_query_batch:
  "index self = KDObj t \<Longrightarrow> kd_m t = D \<Longrightarrow> 1 < k \<Longrightarrow>
   cKDTreeIndex_query self (Arr2 D qs) k =
     Inr (Arr2 k (map (\<lambda>q. map fst (kd_row (kd_data t) k q)) qs),
          Arr2 k (map (\<lambda>q. map snd (kd_row (kd_data t) k q)) qs))"
  by (simp add: cKDTreeIndex_query_def cKDTree_query_def)

lemma create_after_select:
  assumes "shape_last X = Inr D" "select_m D = Inr m"
  shows "ivfpq_m (snd (MemoryEfficientIndex_create lib self X)) = Some m"
proof -
  let ?ix = "IndexIVFPQ_new (IndexFlatL2_new D) D 100 m 8 :: 'a IndexIVFPQ"
  have M: "pq_M ?ix = m" by (simp add: IndexIVFPQ_new_def)
  show ?thesis
  proof (cases "IndexIVFPQ_train lib ?ix X")
    case (Inl e)
    then show ?thesis using assms M
      by (simp add: MemoryEfficientIndex_create_def ivfpq_m_def)
  next
    case (Inr ix1)
    note tr = Inr
    show ?thesis
    proof (cases "IndexIVFPQ_add lib ix1 X")
      case (Inl e)
      then show ?thesis using assms tr train_keeps_M [OF tr] M
        by (simp add: MemoryEfficientIndex_create_def ivfpq_m_def)
    next
      case (Inr ix2)
      then show ?thesis using assms tr train_keeps_M [OF tr] add_keeps_M [OF Inr] M
        by (simp add: MemoryEfficientIndex_create_def ivfpq_m_def)
    qed
  qed
qed

lemma create_selected_error:
  assumes "shape_last X = Inr D" "select_m D = Inr m"
  shows "fst (MemoryEfficientIndex_create lib self X) \<noteq> Inl (ValueError no_m_msg)"
proof -
  let ?ix = "IndexIVFPQ_new (IndexFlatL2_new D) D 100 m 8 :: 'a IndexIVFPQ"
  show ?thesis
  proof (cases "IndexIVFPQ_train lib ?ix X")
    case (Inl e)
    then show ?thesis using assms train_error [OF Inl]
      by (simp add: MemoryEfficientIndex_create_def)
  next
    case (Inr ix1)
    note tr = Inr
    show ?thesis
    proof (cases "IndexIVFPQ_add lib ix1 X")
      case (Inl e)
      then show ?thesis using assms tr add_error [OF Inl]
        by (simp add: MemoryEfficientIndex_create_def)
    next
      case (Inr ix2)
      then show ?thesis using assms tr
        by (simp add: MemoryEfficientIndex_create_def)
    qed
  qed
qed

lemma create_rejected:
  "shape_last X = Inr D \<Longrightarrow> select_m D = Inl e \<Longrightarrow>
   MemoryEfficientIndex_create lib self X = (Inl e, self)"
  by (simp add: MemoryEfficientIndex_create_def)

lemma select_m_dvd:
  "select_m D =
     (if 4 dvd D then Inr 4 else if 5 dvd D then Inr 5 else if 2 dvd D then Inr 2
      else Inl (ValueError no_m_msg))"
  by (simp add: select_m_def dvd_eq_mod_eq_0)

lemma query_unbuilt:
  "index self = PyNone \<Longrightarrow> query lib (Some self) q k = Inl AttributeError"
  by (cases "cls self")
     (simp_all add: query_def FastIndex_query_def MemoryEfficientIndex_query_def
        cKDTreeIndex_query_def search_first_def)

text \<open>
  \<^verbatim>\<open>FastIndex.load\<close> never returns an instance, so the sequence save, restore, query never
  returns a result for a \<^verbatim>\<open>FastIndex\<close>; the two sibling classes return the instance, and
  with a library that reads back what it wrote their restored instance answers as the
  original does.
\<close>

lemma FastIndex_load_no_instance: "load lib FastIndex file_path w \<noteq> Inr (Some obj)"
  by (simp add: FastIndex_load_def split: option.splits)

lemma FastIndex_roundtrip_fails:
  "cls self = FastIndex \<Longrightarrow> save_restore_query lib self file_path w q k \<noteq> Inr r"
  by (auto simp: save_restore_query_def FastIndex_load_def query_def
      split: prod.splits sum.splits option.splits)

lemma MemoryEfficientIndex_roundtrip:
  assumes "cls self = MemoryEfficientIndex"
    and "write_index lib (index self) file_path w = (True, w')"
    and "read_index lib file_path w' = Some (index self)"
  shows "save_restore_query lib self file_path w q k = query lib (Some self) q k"
  using assms
  by (simp add: save_restore_query_def serialize_def MemoryEfficientIndex_serialize_def
      faiss_serialize_def MemoryEfficientIndex_load_def query_def BaseIndex_init_def
      MemoryEfficientIndex_query_def search_first_def)

lemma cKDTreeIndex_roundtrip:
  assumes "cls self = cKDTreeIndex"
    and "pickle_dump lib (index self) file_path w = (True, w')"
    and "pickle_load lib file_path w' = Some (index self)"
  shows "save_restore_query lib self file_path w q k = query lib (Some self) q k"
  using assms
  by (simp add: save_restore_query_def serialize_def cKDTreeIndex_serialize_def
      cKDTreeIndex_load_def query_def BaseIndex_init_def cKDTreeIndex_query_def)

subsection \<open>The concrete indexes\<close>

lemma flat_built_eq:
  "flat_built = \<lparr>cls = FastIndex, index = FlatObj \<lparr>flat_d = 2, xb = [[0, 0], [2, 0]]\<rparr>\<rparr>"
  by (simp add: flat_built_def create_def BaseIndex_init_def two_points_def FastIndex_create_def
      IndexFlatL2_new_def IndexFlatL2_add_def)

lemma tree_built_eq:
  "tree_built = \<lparr>cls = cKDTreeIndex, index = KDObj \<lparr>kd_m = 2, kd_data = [[0, 0], [2, 0]]\<rparr>\<rparr>"
  by (simp add: tree_built_def create_def BaseIndex_init_def two_points_def cKDTreeIndex_create_def
      cKDTree_new_def)

lemma flat_saved_eq:
  "flat_saved = [''flat.index'' \<mapsto> FlatObj \<lparr>flat_d = 2, xb = [[0, 0], [2, 0]]\<rparr>]"
  by (simp add: flat_saved_def flat_built_eq serialize_def FastIndex_serialize_def
      faiss_serialize_def mem_library_def)

lemma flat_built_query2:
  "FastIndex_query mem_library flat_built (Arr2 2 [[0, 0]]) 2
     = Inr (Arr1 [Fin 0, Fin 4], Arr1 [0, 1])"
  by (simp add: flat_built_eq FastIndex_query_def search_first_def IndexFlatL2_search_def
      flat_row_def ranked_def L2sqr_def)

lemma tree_built_query2:
  "cKDTreeIndex_query tree_built (Arr2 2 [[0, 0]]) 2
     = Inr (Arr2 2 [[Fin 0, Fin 2]], Arr2 2 [[0, 1]])"
  by (simp add: tree_built_eq cKDTreeIndex_query_def cKDTree_query_def kd_row_def nearest_def
      heap_push_def heap_remove_def sift_up.simps sift_down.simps heap_swap_def heap_parent_def
      Let_def L2sqr_def)

lemma cKDTreeIndex_query_single:
  "index self = KDObj t \<Longrightarrow> kd_m t = D \<Longrightarrow>
   cKDTreeIndex_query self (Arr2 D qs) 1 =
     Inr (Arr1 (map (\<lambda>q. fst (hd (kd_row (kd_data t) 1 q))) qs),
          Arr1 (map (\<lambda>q. snd (hd (kd_row (kd_data t) 1 q))) qs))"
  by (simp add: cKDTreeIndex_query_def cKDTree_query_def)

lemma flat_six_eq:
  "flat_six = \<lparr>cls = FastIndex,
      index = FlatObj \<lparr>flat_d = 2, xb = [[0, 0], [1, 0], [0, 1], [10, 10], [11, 10], [10, 11]]\<rparr>\<rparr>"
  by (simp add: flat_six_def create_def BaseIndex_init_def six_points_def FastIndex_create_def
      IndexFlatL2_new_def IndexFlatL2_add_def)

lemma tree_six_eq:
  "tree_six = \<lparr>cls = cKDTreeIndex,
      index = KDObj \<lparr>kd_m = 2,
                kd_data = [[0, 0], [1, 0], [0, 1], [10, 10], [11, 10], [10, 11]]\<rparr>\<rparr>"
  by (simp add: tree_six_def create_def BaseIndex_init_def six_points_def cKDTreeIndex_create_def
      cKDTree_new_def)

lemma six_points_nearest:
  "nearest 3 (L2sqr [0, 0]) [[0, 0], [1, 0], [0, 1], [10, 10], [11, 10], [10, 11]]
     = [(0, 0), (1, 2), (1, 1)]"
  by (simp add: nearest_def L2sqr_def heap_push_def heap_remove_def sift_up.simps sift_down.simps
      heap_swap_def heap_parent_def numeral_3_eq_3 Let_def)

section \<open>The two exact backends against each other\<close>

text \<open>
  C1, as stated: built on the same dataset, \<^verbatim>\<open>FastIndex\<close> and \<^verbatim>\<open>cKDTreeIndex\<close> return
  identical (index, distance) sets. It fails on the two points \<open>(0, 0)\<close>, \<open>(2, 0)\<close> with
  the query \<open>(0, 0)\<close> and \<open>k = 2\<close>: the flat index reports the squared distance 4 for row
  1, the tree the distance 2.
\<close>

theorem flat_tree_distances_differ:
  "FastIndex_query mem_library flat_built (Arr2 2 [[0, 0]]) 2
     = Inr (Arr1 [Fin 0, Fin 4], Arr1 [0, 1])
   \<and> cKDTreeIndex_query tree_built (Arr2 2 [[0, 0]]) 2
     = Inr (Arr2 2 [[Fin 0, Fin 2]], Arr2 2 [[0, 1]])
   \<and> result_pairs (Arr1 [Fin 0, Fin 4], Arr1 [0, 1])
       \<noteq> result_pairs (Arr2 2 [[Fin 0, Fin 2]], Arr2 2 [[0, 1]])"
proof -
  have "(1, Fin 4) \<in> result_pairs (Arr1 [Fin 0, Fin 4], Arr1 [0, 1])"
    by (simp add: result_pairs_def)
  moreover have "(1, Fin 4) \<notin> result_pairs (Arr2 2 [[Fin 0, Fin 2]], Arr2 2 [[0, 1]])"
    by (simp add: result_pairs_def)
  ultimately have "result_pairs (Arr1 [Fin 0, Fin 4], Arr1 [0, 1])
       \<noteq> result_pairs (Arr2 2 [[Fin 0, Fin 2]], Arr2 2 [[0, 1]])"
    by metis
  then show ?thesis
    by (simp add: flat_built_query2 tree_built_query2)
qed

text \<open>
  C1, amended: for a dataset of \<open>N\<close> rows and a query vector with integer coordinates that
  the libraries compute exactly, the query given as a \<open>1 \<times> D\<close> batch and \<open>1 \<le> k \<le> N\<close>,
  \<^verbatim>\<open>FastIndex.query\<close> returns two sequences of length \<open>k\<close> and \<^verbatim>\<open>cKDTreeIndex.query\<close>
  two \<open>1 \<times> k\<close> arrays (of shape \<open>(1)\<close> when \<open>k = 1\<close>). Where no two rows are at the same
  distance from the query, the row numbers are the same sequence. The distances are not:
  position by position they agree only where the flat index reports 0 or 1, and where it
  reports a square \<open>m\<^sup>2\<close> the tree reports \<open>m\<close>.
\<close>

theorem flat_tree_same_rows:
  fixes lib :: "('p, 'w) library"
  assumes "float_exact D R qv" "1 \<le> k" "k \<le> length R"
  shows "\<exists>ds is td ti.
     FastIndex_query lib
        (snd (FastIndex_create (BaseIndex_init FastIndex) (Arr2 D (map as_reals R))))
        (Arr2 D [as_reals qv]) k = Inr (Arr1 ds, Arr1 is)
   \<and> cKDTreeIndex_query
        (snd (cKDTreeIndex_create (BaseIndex_init cKDTreeIndex :: 'p BaseIndex)
           (Arr2 D (map as_reals R))))
        (Arr2 D [as_reals qv]) k = Inr (td, ti)
   \<and> length ds = k \<and> length is = k
   \<and> shape td = (if k = 1 then [1] else [1, k])
   \<and> shape ti = (if k = 1 then [1] else [1, k])
   \<and> (distinct (map (L2sqr (as_reals qv)) (map as_reals R)) \<longrightarrow> elems ti = is)
   \<and> (\<forall>j<k. (elems td ! j = ds ! j) = (ds ! j = Fin 0 \<or> ds ! j = Fin 1))
   \<and> (\<forall>j<k. \<forall>m::nat. ds ! j = Fin ((real m)\<^sup>2) \<longrightarrow> elems td ! j = Fin (real m))"
proof -
  let ?rows = "map as_reals R" and ?q = "as_reals qv"
  let ?F = "flat_row ?rows k ?q" and ?K = "kd_row ?rows k ?q"
  let ?fi = "snd (FastIndex_create (BaseIndex_init FastIndex :: 'p BaseIndex) (Arr2 D ?rows))"
  let ?ti = "snd (cKDTreeIndex_create (BaseIndex_init cKDTreeIndex :: 'p BaseIndex) (Arr2 D ?rows))"
  define td where "td = (if k = 1 then Arr1 [fst (hd ?K)] else Arr2 k [map fst ?K])"
  define tn where "tn = (if k = 1 then Arr1 [snd (hd ?K)] else Arr2 k [map snd ?K])"
  define ds where "ds = map fst ?F"
  define ns where "ns = map snd ?F"
  have k0: "0 < k" using assms(2) by simp
  have kN: "k \<le> length ?rows" using assms(3) by simp
  have fi: "index ?fi = FlatObj \<lparr>flat_d = D, xb = ?rows\<rparr>"
    by (simp add: FastIndex_create_built)
  have ti: "index ?ti = KDObj \<lparr>kd_m = D, kd_data = ?rows\<rparr>"
    by (simp add: cKDTreeIndex_create_built)
  have flat: "FastIndex_query lib ?fi (Arr2 D [?q]) k = Inr (Arr1 ds, Arr1 ns)"
    using FastIndex_query_flat [OF fi _ k0, of D lib ?q "[]"] by (simp add: ds_def ns_def)
  have tree: "cKDTreeIndex_query ?ti (Arr2 D [?q]) k = Inr (td, tn)"
  proof (cases "k = 1")
    case True
    then show ?thesis
      using cKDTreeIndex_query_single [OF ti, of D "[?q]"] by (simp add: td_def tn_def)
  next
    case False
    then have k1: "1 < k" using k0 by simp
    show ?thesis
      using cKDTreeIndex_query_batch [OF ti _ k1, of D "[?q]"] False by (simp add: td_def tn_def)
  qed
  have one: "?K = [hd ?K]" if "k = 1"
    using that length_kd_row [of ?rows k ?q] by (cases ?K) simp_all
  have etd: "elems td = map fst ?K"
  proof (cases "k = 1")
    case True
    have "map fst ?K = map fst [hd ?K]" using one [OF True] by simp
    then show ?thesis using True by (simp add: td_def)
  next
    case False
    then show ?thesis by (simp add: td_def)
  qed
  have etn: "elems tn = map snd ?K"
  proof (cases "k = 1")
    case True
    have "map snd ?K = map snd [hd ?K]" using one [OF True] by simp
    then show ?thesis using True by (simp add: tn_def)
  next
    case False
    then show ?thesis by (simp add: tn_def)
  qed
  have shapes: "shape td = (if k = 1 then [1] else [1, k])"
    "shape tn = (if k = 1 then [1] else [1, k])"
    by (simp_all add: td_def tn_def)
  have len: "length ds = k" "length ns = k"
    by (simp_all add: ds_def ns_def length_flat_row)
  have dist: "elems td = map np_sqrt ds"
    unfolding etd ds_def by (rule kd_row_distances [OF kN])
  have ix: "distinct (map (L2sqr ?q) ?rows) \<longrightarrow> elems tn = ns"
    unfolding etn ns_def using kd_row_indices [OF kN] by blast
  have nonneg: "\<exists>x\<ge>0. ds ! j = Fin x" if "j < k" for j
    unfolding ds_def by (rule flat_row_nonneg [OF kN that])
  have root: "elems td ! j = np_sqrt (ds ! j)" if "j < k" for j
    unfolding dist using that len(1) by simp
  have same: "(elems td ! j = ds ! j) = (ds ! j = Fin 0 \<or> ds ! j = Fin 1)" if "j < k" for j
  proof -
    from nonneg [OF that] obtain x where x: "0 \<le> x" "ds ! j = Fin x" by auto
    show ?thesis using sqrt_fixed [OF x(1)] by (simp add: root [OF that] x(2))
  qed
  have square: "elems td ! j = Fin (real m)" if "j < k" "ds ! j = Fin ((real m)\<^sup>2)" for j m
    by (simp add: root [OF that(1)] that(2))
  have sm: "\<forall>j<k. (elems td ! j = ds ! j) = (ds ! j = Fin 0 \<or> ds ! j = Fin 1)"
    using same by blast
  have sq: "\<forall>j<k. \<forall>m::nat. ds ! j = Fin ((real m)\<^sup>2) \<longrightarrow> elems td ! j = Fin (real m)"
    using square by blast
  from flat tree len shapes ix sm sq show ?thesis by blast
qed

text \<open>
  The amended C1 at the two points \<open>(0, 0)\<close>, \<open>(2, 0)\<close> and \<open>k = 2\<close>: the hypotheses are
  met, the row numbers agree, and the flat index reports the square 4 where the tree
  reports 2.
\<close>

theorem flat_tree_same_rows_witness:
  "float_exact 2 [[0, 0], [2, 0]] [0, 0] \<and> (1::nat) \<le> 2 \<and> 2 \<le> length [[0, 0], [2, 0 :: int]]
   \<and> distinct (map (L2sqr (as_reals [0, 0])) (map as_reals [[0, 0], [2, 0]]))
   \<and> (1::nat) < 2 \<and> Fin 4 = Fin ((real 2)\<^sup>2)
   \<and> FastIndex_query mem_library
        (snd (FastIndex_create (BaseIndex_init FastIndex) (Arr2 2 (map as_reals [[0, 0], [2, 0]]))))
        (Arr2 2 [as_reals [0, 0]]) 2 = Inr (Arr1 [Fin 0, Fin 4], Arr1 [0, 1])
   \<and> cKDTreeIndex_query
        (snd (cKDTreeIndex_create (BaseIndex_init cKDTreeIndex :: unit BaseIndex)
           (Arr2 2 (map as_reals [[0, 0], [2, 0]]))))
        (Arr2 2 [as_reals [0, 0]]) 2 = Inr (Arr2 2 [[Fin 0, Fin 2]], Arr2 2 [[0, 1]])"
proof -
  let ?fq = "FastIndex_query mem_library
        (snd (FastIndex_create (BaseIndex_init FastIndex) (Arr2 2 (map as_reals [[0, 0], [2, 0]]))))
        (Arr2 2 [as_reals [0, 0]]) 2"
  let ?tq = "cKDTreeIndex_query
        (snd (cKDTreeIndex_create (BaseIndex_init cKDTreeIndex :: unit BaseIndex)
           (Arr2 2 (map as_reals [[0, 0], [2, 0]]))))
        (Arr2 2 [as_reals [0, 0]]) 2"
  have h1: "float_exact 2 [[0, 0], [2, 0]] [0, 0]" by (simp add: float_exact_def)
  have h2: "(1::nat) \<le> 2" by simp
  have h3: "2 \<le> length [[0, 0], [2, 0 :: int]]" by simp
  have h4: "distinct (map (L2sqr (as_reals [0, 0])) (map as_reals [[0, 0], [2, 0]]))"
    by (simp add: L2sqr_def as_reals_def)
  have h5: "(1::nat) < 2" "Fin 4 = Fin ((real 2)\<^sup>2)" by simp_all
  from flat_tree_same_rows [OF h1 h2 h3, of mem_library]
  obtain ds "is" td ti where
    f: "?fq = Inr (Arr1 ds, Arr1 is)"
    and t: "?tq = Inr (td, ti)"
    and sh: "shape td = [1, 2]" "shape ti = [1, 2]"
    and ix: "distinct (map (L2sqr (as_reals [0, 0])) (map as_reals [[0, 0], [2, 0]]))
               \<longrightarrow> elems ti = is"
    and sq: "\<forall>j<2. \<forall>m::nat. ds ! j = Fin ((real m)\<^sup>2) \<longrightarrow> elems td ! j = Fin (real m)"
    by auto
  have v: "?fq = Inr (Arr1 [Fin 0, Fin 4], Arr1 [0, 1])"
    by (simp add: FastIndex_create_built BaseIndex_init_def FastIndex_query_def search_first_def
        IndexFlatL2_search_def flat_row_def ranked_def L2sqr_def as_reals_def)
  from f v have ds: "ds = [Fin 0, Fin 4]" and "is": "is = [0, 1]" by simp_all
  from ix h4 "is" have eti: "elems ti = [0, 1]" by simp
  from sq h5 ds have "elems td ! 1 = Fin (real 2)" by (metis nth_Cons_0 nth_Cons_Suc One_nat_def)
  moreover from sq ds have "elems td ! 0 = Fin (real 0)"
    by (metis nth_Cons_0 power_zero_numeral of_nat_0 zero_less_numeral)
  ultimately have e01: "elems td ! 0 = Fin 0" "elems td ! 1 = Fin 2" by simp_all
  obtain c rs where td: "td = Arr2 c rs" using sh(1) by (cases td) simp_all
  obtain c' rs' where ti': "ti = Arr2 c' rs'" using sh(2) by (cases ti) simp_all
  from sh(1) td have c: "c = 2" "length rs = 1" by simp_all
  from sh(2) ti' have c': "c' = 2" "length rs' = 1" by simp_all
  have w: "?tq = Inr (Arr2 2 [[Fin 0, Fin 2]], Arr2 2 [[0, 1]])"
    by (simp add: cKDTreeIndex_create_built BaseIndex_init_def cKDTreeIndex_query_def
        cKDTree_query_def kd_row_def nearest_def heap_push_def heap_remove_def sift_up.simps
        sift_down.simps heap_swap_def heap_parent_def Let_def L2sqr_def as_reals_def)
  from t w e01 eti h1 h2 h3 h4 h5 v show ?thesis by simp
qed

section \<open>Restoring a saved index\<close>

text \<open>
  C2: \<^verbatim>\<open>load\<close> on a previously saved file returns an instance that is ready to answer
  queries. At the file \<^verbatim>\<open>FastIndex.serialize\<close> has written, \<^verbatim>\<open>FastIndex.load\<close> returns
  \<open>None\<close>, where \<^verbatim>\<open>MemoryEfficientIndex.load\<close> on the same file returns an instance that
  holds the index read.
\<close>

theorem FastIndex_load_returns_None:
  "fst (serialize mem_library flat_built ''flat.index'' Map.empty) = Inr ()
   \<and> load mem_library FastIndex ''flat.index'' flat_saved = Inr None
   \<and> load mem_library MemoryEfficientIndex ''flat.index'' flat_saved
       = Inr (Some \<lparr>cls = MemoryEfficientIndex, index = index flat_built\<rparr>)"
  by (simp add: flat_saved_eq flat_built_eq serialize_def FastIndex_serialize_def
      faiss_serialize_def mem_library_def FastIndex_load_def MemoryEfficientIndex_load_def
      BaseIndex_init_def)

text \<open>
  C3: save, then restore, then query gives what the query on the original gives. For the
  \<^verbatim>\<open>FastIndex\<close> built on the two points the original answers, and the sequence through
  the file ends in an \<open>AttributeError\<close>, the query being called on \<open>None\<close>.
\<close>

theorem FastIndex_save_restore_query_fails:
  "query mem_library (Some flat_built) (Arr2 2 [[0, 0]]) 2
     = Inr (Arr1 [Fin 0, Fin 4], Arr1 [0, 1])
   \<and> save_restore_query mem_library flat_built ''flat.index'' Map.empty (Arr2 2 [[0, 0]]) 2
     = Inl AttributeError"
  by (simp add: flat_built_eq save_restore_query_def serialize_def FastIndex_serialize_def
      faiss_serialize_def mem_library_def FastIndex_load_def query_def FastIndex_query_def
      search_first_def IndexFlatL2_search_def flat_row_def ranked_def L2sqr_def)

section \<open>The subdivision factor of the quantized backend\<close>

text \<open>
  C4: \<^verbatim>\<open>MemoryEfficientIndex.create\<close> ends with the error of line 86 (the module's
  \<^verbatim>\<open>ValueError\<close> with the message about \<open>m\<close>, which the specification calls
  ConfigurationError) exactly when the dimension \<open>D\<close> is divisible by none of 4, 5 and 2;
  for every other \<open>D\<close> it does not end with this error, whatever the library does.
\<close>

theorem create_error_iff:
  assumes "shape_last X = Inr D"
  shows "(fst (MemoryEfficientIndex_create lib self X) = Inl (ValueError no_m_msg))
     = (\<not> 4 dvd D \<and> \<not> 5 dvd D \<and> \<not> 2 dvd D)"
proof (cases "select_m D")
  case (Inl e)
  then have "\<not> 4 dvd D \<and> \<not> 5 dvd D \<and> \<not> 2 dvd D" and "e = ValueError no_m_msg"
    by (auto simp: select_m_dvd split: if_splits)
  then show ?thesis using create_rejected [OF assms Inl, of lib self] by simp
next
  case (Inr m)
  then have "\<not> (\<not> 4 dvd D \<and> \<not> 5 dvd D \<and> \<not> 2 dvd D)"
    by (auto simp: select_m_dvd split: if_splits)
  then show ?thesis using create_selected_error [OF assms Inr, of lib self] by simp
qed

text \<open>C4 at \<open>D = 7\<close>, where the error is raised, and at \<open>D = 6\<close>, where it is not.\<close>

theorem create_error_iff_witness:
  "shape_last (Arr2 7 [[1, 2, 3, 4, 5, 6, 7]] :: real ndarray) = Inr 7
   \<and> fst (MemoryEfficientIndex_create mem_library (BaseIndex_init MemoryEfficientIndex)
           (Arr2 7 [[1, 2, 3, 4, 5, 6, 7]]))
       = Inl (ValueError no_m_msg)
   \<and> shape_last (Arr2 6 [[1, 2, 3, 4, 5, 6]] :: real ndarray) = Inr 6
   \<and> fst (MemoryEfficientIndex_create mem_library (BaseIndex_init MemoryEfficientIndex)
           (Arr2 6 [[1, 2, 3, 4, 5, 6]]))
       \<noteq> Inl (ValueError no_m_msg)"
  using create_error_iff [of "Arr2 7 [[1, 2, 3, 4, 5, 6, 7]]" 7 mem_library
          "BaseIndex_init MemoryEfficientIndex"]
        create_error_iff [of "Arr2 6 [[1, 2, 3, 4, 5, 6]]" 6 mem_library
          "BaseIndex_init MemoryEfficientIndex"]
  by simp

text \<open>
  C5: when \<open>D\<close> is divisible by none of 4, 5 and 2, \<^verbatim>\<open>MemoryEfficientIndex.create\<close> ends
  with the error and the instance as it was, the same for every library (no quantizer is
  constructed or trained on the way); on a new instance the attribute is still \<open>None\<close>,
  and a query on it fails.
\<close>

theorem create_fails_fast:
  fixes lib lib' :: "('p, 'w) library"
  assumes "shape_last X = Inr D" "\<not> 4 dvd D" "\<not> 5 dvd D" "\<not> 2 dvd D"
  shows "MemoryEfficientIndex_create lib self X = (Inl (ValueError no_m_msg), self)
       \<and> MemoryEfficientIndex_create lib' self X = MemoryEfficientIndex_create lib self X
       \<and> index (snd (MemoryEfficientIndex_create lib (BaseIndex_init MemoryEfficientIndex) X))
           = PyNone
       \<and> query lib
           (Some (snd (MemoryEfficientIndex_create lib (BaseIndex_init MemoryEfficientIndex) X)))
           q k = Inl AttributeError"
proof -
  have sel: "select_m D = Inl (ValueError no_m_msg)"
    using assms by (simp add: select_m_dvd)
  have eq: "MemoryEfficientIndex_create l s X = (Inl (ValueError no_m_msg), s)"
    for l :: "('p, 'w) library" and s
    by (rule create_rejected [OF assms(1) sel])
  have new: "index (BaseIndex_init MemoryEfficientIndex :: 'p BaseIndex) = PyNone"
    by (simp add: BaseIndex_init_def)
  show ?thesis
    using query_unbuilt [OF new, of lib q k] new by (simp add: eq)
qed

text \<open>C5 at a dataset of one row of dimension 7.\<close>

theorem create_fails_fast_witness:
  "shape_last (Arr2 7 [[1, 2, 3, 4, 5, 6, 7]] :: real ndarray) = Inr 7
   \<and> \<not> 4 dvd (7::nat) \<and> \<not> 5 dvd (7::nat) \<and> \<not> 2 dvd (7::nat)
   \<and> MemoryEfficientIndex_create mem_library (BaseIndex_init MemoryEfficientIndex)
        (Arr2 7 [[1, 2, 3, 4, 5, 6, 7]])
       = (Inl (ValueError no_m_msg), BaseIndex_init MemoryEfficientIndex)
   \<and> query mem_library
        (Some (snd (MemoryEfficientIndex_create mem_library (BaseIndex_init MemoryEfficientIndex)
           (Arr2 7 [[1, 2, 3, 4, 5, 6, 7]]))))
        (Arr2 7 [[1, 2, 3, 4, 5, 6, 7]]) 1 = Inl AttributeError"
proof -
  have h: "shape_last (Arr2 7 [[1, 2, 3, 4, 5, 6, 7]] :: real ndarray) = Inr 7"
    "\<not> 4 dvd (7::nat)" "\<not> 5 dvd (7::nat)" "\<not> 2 dvd (7::nat)"
    by simp_all
  show ?thesis
    using h create_fails_fast [OF h, of mem_library "BaseIndex_init MemoryEfficientIndex"
        mem_library "Arr2 7 [[1, 2, 3, 4, 5, 6, 7]]" 1]
    by (elim conjE) simp
qed

section \<open>The example of six points\<close>

text \<open>
  C6, as stated: on the six points \<open>(0,0), (1,0), (0,1), (10,10), (11,10), (10,11)\<close> with
  the query \<open>(0, 0)\<close> and \<open>k = 3\<close> both exact backends return the row numbers \<open>0, 1, 2\<close>,
  rows at equal distance by lower number first. The tree returns \<open>0, 2, 1\<close>: rows 1 and 2
  are both at distance 1, and its heap gives row 2 back before row 1.
\<close>

theorem tree_six_points_tie_order:
  "cKDTreeIndex_query tree_six (Arr1 [0, 0]) 3
     = Inr (Arr1 [Fin 0, Fin 1, Fin 1], Arr1 [0, 2, 1])
   \<and> cKDTreeIndex_query tree_six (Arr1 [0, 0]) 3
     \<noteq> Inr (Arr1 [Fin 0, Fin 1, Fin 1], Arr1 [0, 1, 2])"
  by (simp add: tree_six_eq cKDTreeIndex_query_def cKDTree_query_def kd_row_def
      six_points_nearest Let_def)

text \<open>
  C6, amended: on the six points with the query \<open>(0, 0)\<close> and \<open>k = 3\<close> both exact backends
  return the distances \<open>0, 1, 1\<close>; \<^verbatim>\<open>FastIndex\<close> returns the row numbers \<open>0, 1, 2\<close> and
  \<^verbatim>\<open>cKDTreeIndex\<close> the row numbers \<open>0, 2, 1\<close>, for the query as a vector and as a batch of
  one vector.
\<close>

theorem six_points_results:
  "FastIndex_query mem_library flat_six (Arr2 2 [[0, 0]]) 3
     = Inr (Arr1 [Fin 0, Fin 1, Fin 1], Arr1 [0, 1, 2])
   \<and> cKDTreeIndex_query tree_six (Arr1 [0, 0]) 3
     = Inr (Arr1 [Fin 0, Fin 1, Fin 1], Arr1 [0, 2, 1])
   \<and> cKDTreeIndex_query tree_six (Arr2 2 [[0, 0]]) 3
     = Inr (Arr2 3 [[Fin 0, Fin 1, Fin 1]], Arr2 3 [[0, 2, 1]])"
proof -
  have "FastIndex_query mem_library flat_six (Arr2 2 [[0, 0]]) 3
     = Inr (Arr1 [Fin 0, Fin 1, Fin 1], Arr1 [0, 1, 2])"
    by (simp add: flat_six_eq FastIndex_query_def search_first_def IndexFlatL2_search_def
        flat_row_def ranked_def L2sqr_def numeral_3_eq_3)
  moreover have "cKDTreeIndex_query tree_six (Arr1 [0, 0]) 3
     = Inr (Arr1 [Fin 0, Fin 1, Fin 1], Arr1 [0, 2, 1])"
    by (simp add: tree_six_eq cKDTreeIndex_query_def cKDTree_query_def kd_row_def
        six_points_nearest Let_def)
  moreover have "cKDTreeIndex_query tree_six (Arr2 2 [[0, 0]]) 3
     = Inr (Arr2 3 [[Fin 0, Fin 1, Fin 1]], Arr2 3 [[0, 2, 1]])"
    by (simp add: tree_six_eq cKDTreeIndex_query_def cKDTree_query_def kd_row_def
        six_points_nearest Let_def)
  ultimately show ?thesis by simp
qed

section \<open>Queries outside the intended use\<close>

text \<open>
  C7, as stated: with \<open>k\<close> greater than the number \<open>N\<close> of rows, a query either returns a
  result clamped to the \<open>N\<close> rows or fails. On the two points with \<open>k = 3\<close> both exact
  backends return three entries, the third a filler: row number \<open>-1\<close> with the largest
  float from the flat index, row number \<open>N = 2\<close> with an infinite distance from the tree.
\<close>

theorem query_beyond_N_not_clamped:
  "query mem_library (Some flat_built) (Arr2 2 [[0, 0]]) 3
     = Inr (Arr1 [Fin 0, Fin 4, Fin FLT_MAX], Arr1 [0, 1, - 1])
   \<and> query mem_library (Some tree_built) (Arr2 2 [[0, 0]]) 3
     = Inr (Arr2 3 [[Fin 0, Fin 2, PosInf]], Arr2 3 [[0, 1, 2]])
   \<and> query mem_library (Some tree_built) (Arr1 [0, 0]) 3
     = Inr (Arr1 [Fin 0, Fin 2, PosInf], Arr1 [0, 1, 2])"
  by (simp add: flat_built_eq tree_built_eq query_def FastIndex_query_def cKDTreeIndex_query_def
      search_first_def IndexFlatL2_search_def flat_row_def ranked_def L2sqr_def
      cKDTree_query_def kd_row_def nearest_def heap_push_def heap_remove_def sift_up.simps
      sift_down.simps heap_swap_def heap_parent_def Let_def numeral_3_eq_3)

text \<open>
  C7, amended: the module does not compare \<open>k\<close> with the number \<open>N\<close> of rows. With
  \<open>k > N\<close> (and \<open>k > 1\<close>) a query on a \<^verbatim>\<open>FastIndex\<close> or a \<^verbatim>\<open>cKDTreeIndex\<close> does not fail and
  is not clamped: each result sequence has \<open>k\<close> entries, and the entries past the first
  \<open>N\<close> are the library's fillers, row number \<open>-1\<close> for the flat index, row number \<open>N\<close> with
  an infinite distance for the tree.
\<close>

theorem query_beyond_N_padded:
  fixes lib :: "('p, 'w) library"
  assumes "length rows < k" "1 < k"
  shows "\<exists>ds is ds' is'.
     FastIndex_query lib (snd (FastIndex_create (BaseIndex_init FastIndex) (Arr2 D rows)))
        (Arr2 D [q0]) k = Inr (Arr1 ds, Arr1 is)
   \<and> length ds = k \<and> length is = k
   \<and> drop (length rows) is = replicate (k - length rows) (- 1)
   \<and> cKDTreeIndex_query
        (snd (cKDTreeIndex_create (BaseIndex_init cKDTreeIndex :: 'p BaseIndex) (Arr2 D rows)))
        (Arr2 D [q0]) k = Inr (Arr2 k [ds'], Arr2 k [is'])
   \<and> length ds' = k \<and> length is' = k
   \<and> drop (length rows) ds' = replicate (k - length rows) PosInf
   \<and> drop (length rows) is' = replicate (k - length rows) (int (length rows))"
proof -
  let ?F = "flat_row rows k q0"
  let ?K = "kd_row rows k q0"
  let ?fi = "snd (FastIndex_create (BaseIndex_init FastIndex :: 'p BaseIndex) (Arr2 D rows))"
  let ?ti = "snd (cKDTreeIndex_create (BaseIndex_init cKDTreeIndex :: 'p BaseIndex) (Arr2 D rows))"
  have k: "0 < k" using assms(2) by simp
  have fi: "index ?fi = FlatObj \<lparr>flat_d = D, xb = rows\<rparr>"
    by (simp add: FastIndex_create_built)
  have ti: "index ?ti = KDObj \<lparr>kd_m = D, kd_data = rows\<rparr>"
    by (simp add: cKDTreeIndex_create_built)
  have flat: "FastIndex_query lib ?fi (Arr2 D [q0]) k = Inr (Arr1 (map fst ?F), Arr1 (map snd ?F))"
    using FastIndex_query_flat [OF fi _ k, of D lib q0 "[]"] by simp
  have tree: "cKDTreeIndex_query ?ti (Arr2 D [q0]) k
      = Inr (Arr2 k [map fst ?K], Arr2 k [map snd ?K])"
    using cKDTreeIndex_query_batch [OF ti _ assms(2), of D "[q0]"] by simp
  have pad: "drop (length rows) (map fst ?K) = replicate (k - length rows) PosInf"
    "drop (length rows) (map snd ?K) = replicate (k - length rows) (int (length rows))"
    by (simp_all add: drop_map kd_row_pad)
  show ?thesis
    using flat tree pad flat_row_pad [of rows k q0]
    by (simp add: length_flat_row length_kd_row)
qed

text \<open>The amended C7 at the two points and \<open>k = 3\<close>.\<close>

theorem query_beyond_N_padded_witness:
  "length [[0, 0], [2, 0 :: real]] < 3 \<and> (1::nat) < 3
   \<and> (\<exists>ds is ds' is'.
     FastIndex_query mem_library
        (snd (FastIndex_create (BaseIndex_init FastIndex) (Arr2 2 [[0, 0], [2, 0]])))
        (Arr2 2 [[0, 0]]) 3 = Inr (Arr1 ds, Arr1 is)
   \<and> length ds = 3 \<and> length is = 3
   \<and> drop (length [[0, 0], [2, 0 :: real]]) is
       = replicate (3 - length [[0, 0], [2, 0 :: real]]) (- 1)
   \<and> cKDTreeIndex_query
        (snd (cKDTreeIndex_create (BaseIndex_init cKDTreeIndex :: unit BaseIndex)
           (Arr2 2 [[0, 0], [2, 0]])))
        (Arr2 2 [[0, 0]]) 3 = Inr (Arr2 3 [ds'], Arr2 3 [is'])
   \<and> length ds' = 3 \<and> length is' = 3
   \<and> drop (length [[0, 0], [2, 0 :: real]]) ds'
       = replicate (3 - length [[0, 0], [2, 0 :: real]]) PosInf
   \<and> drop (length [[0, 0], [2, 0 :: real]]) is'
       = replicate (3 - length [[0, 0], [2, 0 :: real]]) (int (length [[0, 0], [2, 0 :: real]])))"
proof -
  have h1: "length [[0, 0], [2, 0 :: real]] < 3" by simp
  have h2: "(1::nat) < 3" by simp
  show ?thesis
    using h1 h2 query_beyond_N_padded [OF h1 h2, of mem_library 2 "[0, 0]"]
    by blast
qed

text \<open>
  C8, as stated: a query on an instance on which \<^verbatim>\<open>create\<close> has not been called fails
  with NotBuiltError, an error for this misuse. The module has no such error and makes no
  check: the query on a new instance ends with the interpreter's \<open>AttributeError\<close>, raised
  by the lookup of \<^verbatim>\<open>search\<close> or \<^verbatim>\<open>query\<close> on \<open>None\<close>, the same error that a query on the
  \<open>None\<close> returned by \<^verbatim>\<open>FastIndex.load\<close> ends with.
\<close>

theorem query_before_create_AttributeError:
  "query mem_library (Some (BaseIndex_init FastIndex)) (Arr2 2 [[0, 0]]) 1 = Inl AttributeError
   \<and> query mem_library (Some (BaseIndex_init MemoryEfficientIndex)) (Arr2 2 [[0, 0]]) 1
       = Inl AttributeError
   \<and> query mem_library (Some (BaseIndex_init cKDTreeIndex)) (Arr1 [0, 0]) 1 = Inl AttributeError
   \<and> load mem_library FastIndex ''flat.index'' flat_saved = Inr None
   \<and> query mem_library None (Arr2 2 [[0, 0]]) 1 = Inl AttributeError"
  by (simp add: query_def BaseIndex_init_def FastIndex_query_def MemoryEfficientIndex_query_def
      cKDTreeIndex_query_def search_first_def flat_saved_eq FastIndex_load_def mem_library_def)

text \<open>
  C8, amended: for each of the three classes, a query on an instance on which \<^verbatim>\<open>create\<close>
  has not been called fails with Python's \<open>AttributeError\<close>: the attribute \<^verbatim>\<open>index\<close> is
  \<open>None\<close>, and the lookup of \<^verbatim>\<open>search\<close> or \<^verbatim>\<open>query\<close> on it raises before any library is
  called.
\<close>

theorem query_before_create:
  "query lib (Some (BaseIndex_init b)) q k = Inl AttributeError"
  by (rule query_unbuilt) (simp add: BaseIndex_init_def)




text \<open>
  C10: \<^verbatim>\<open>MemoryEfficientIndex.create\<close> constructs the quantized index with \<open>m = 4\<close> for
  every dimension divisible by 4, else with \<open>m = 5\<close> if the dimension is divisible by 5,
  else with \<open>m = 2\<close> if it is divisible by 2; so a dimension divisible by both 4 and 5
  gets \<open>m = 4\<close>.
\<close>

theorem m_preference:
  assumes "shape_last X = Inr D"
  shows "(4 dvd D \<longrightarrow> ivfpq_m (snd (MemoryEfficientIndex_create lib self X)) = Some 4)
       \<and> (\<not> 4 dvd D \<and> 5 dvd D \<longrightarrow>
            ivfpq_m (snd (MemoryEfficientIndex_create lib self X)) = Some 5)
       \<and> (\<not> 4 dvd D \<and> \<not> 5 dvd D \<and> 2 dvd D \<longrightarrow>
            ivfpq_m (snd (MemoryEfficientIndex_create lib self X)) = Some 2)"
proof (intro conjI impI)
  assume "4 dvd D"
  then have "select_m D = Inr 4" by (simp add: select_m_dvd)
  then show "ivfpq_m (snd (MemoryEfficientIndex_create lib self X)) = Some 4"
    by (rule create_after_select [OF assms])
next
  assume "\<not> 4 dvd D \<and> 5 dvd D"
  then have "select_m D = Inr 5" by (simp add: select_m_dvd)
  then show "ivfpq_m (snd (MemoryEfficientIndex_create lib self X)) = Some 5"
    by (rule create_after_select [OF assms])
next
  assume "\<not> 4 dvd D \<and> \<not> 5 dvd D \<and> 2 dvd D"
  then have "select_m D = Inr 2" by (simp add: select_m_dvd)
  then show "ivfpq_m (snd (MemoryEfficientIndex_create lib self X)) = Some 2"
    by (rule create_after_select [OF assms])
qed

text \<open>C10 at the dimensions 20 (divisible by 4 and by 5), 10 and 6.\<close>

theorem m_preference_witness:
  "shape_last (Arr2 20 [] :: real ndarray) = Inr 20 \<and> 4 dvd (20::nat) \<and> 5 dvd (20::nat)
   \<and> ivfpq_m (snd (MemoryEfficientIndex_create mem_library (BaseIndex_init MemoryEfficientIndex)
        (Arr2 20 []))) = Some 4
   \<and> shape_last (Arr2 10 [] :: real ndarray) = Inr 10 \<and> \<not> 4 dvd (10::nat) \<and> 5 dvd (10::nat)
   \<and> ivfpq_m (snd (MemoryEfficientIndex_create mem_library (BaseIndex_init MemoryEfficientIndex)
        (Arr2 10 []))) = Some 5
   \<and> shape_last (Arr2 6 [] :: real ndarray) = Inr 6
   \<and> \<not> 4 dvd (6::nat) \<and> \<not> 5 dvd (6::nat) \<and> 2 dvd (6::nat)
   \<and> ivfpq_m (snd (MemoryEfficientIndex_create mem_library (BaseIndex_init MemoryEfficientIndex)
        (Arr2 6 []))) = Some 2"
proof -
  have s: "shape_last (Arr2 20 [] :: real ndarray) = Inr 20"
    "shape_last (Arr2 10 [] :: real ndarray) = Inr 10"
    "shape_last (Arr2 6 [] :: real ndarray) = Inr 6"
    by simp_all
  have d: "4 dvd (20::nat)" "5 dvd (20::nat)" "\<not> 4 dvd (10::nat)" "5 dvd (10::nat)"
    "\<not> 4 dvd (6::nat)" "\<not> 5 dvd (6::nat)" "2 dvd (6::nat)"
    by simp_all
  show ?thesis
    using s d
      m_preference [OF s(1), of mem_library "BaseIndex_init MemoryEfficientIndex"]
      m_preference [OF s(2), of mem_library "BaseIndex_init MemoryEfficientIndex"]
      m_preference [OF s(3), of mem_library "BaseIndex_init MemoryEfficientIndex"]
    by blast
qed

end
